theory Spec2Isabelle
  imports Complex_Main "HOL-Library.Multiset" "HOL-Library.List_Lexorder"
begin

section \<open>JavaScript values\<close>

text \<open>
  The program is JavaScript: its data are untyped values. A number is \<open>NaN\<close>, an
  infinity, or a finite decimal \<open>Dec m e\<close> standing for \<open>m * 10 ^ e\<close>. Finite numbers
  are exact decimals: the rounding of IEEE doubles, the overflow of huge literals to
  \<open>Infinity\<close> and the sign of zero are not modelled. Strings are lists of code
  units below 256 (Latin-1), with the case mapping JavaScript has on them. Objects and
  arrays appear only as the records and lists of the pipeline, never as field values.
\<close>

datatype jsnum = NaN | PInf | NInf | Dec int int

datatype jsval = JUndefined | JNull | JBool bool | JNum jsnum | JStr string

datatype error = TypeError

text \<open>A validator either returns, or prints a message and ends the process.\<close>

datatype 'a outcome = Exit string | Returned 'a

type_synonym obj = "string \<rightharpoonup> jsval"

definition get :: "obj \<Rightarrow> string \<Rightarrow> jsval" where
  "get ob k = (case ob k of None \<Rightarrow> JUndefined | Some v \<Rightarrow> v)"

subsection \<open>Numbers\<close>

definition is_nan :: "jsnum \<Rightarrow> bool" where
  "is_nan n = (case n of NaN \<Rightarrow> True | _ \<Rightarrow> False)"

text \<open>The mantissas of two decimals at their common (smaller) exponent.\<close>

definition aligned :: "int \<Rightarrow> int \<Rightarrow> int \<Rightarrow> int \<Rightarrow> int \<times> int" where
  "aligned m1 e1 m2 e2 =
     (m1 * 10 ^ nat (e1 - min e1 e2), m2 * 10 ^ nat (e2 - min e1 e2))"

text \<open>\<open>a < b\<close> on numbers: false as soon as one side is \<open>NaN\<close>.\<close>

fun num_lt :: "jsnum \<Rightarrow> jsnum \<Rightarrow> bool" where
  "num_lt NaN b = False"
| "num_lt a NaN = False"
| "num_lt PInf b = False"
| "num_lt a NInf = False"
| "num_lt NInf b = True"
| "num_lt a PInf = True"
| "num_lt (Dec m1 e1) (Dec m2 e2) = (fst (aligned m1 e1 m2 e2) < snd (aligned m1 e1 m2 e2))"

text \<open>\<open>a === b\<close> on numbers.\<close>

fun num_eq :: "jsnum \<Rightarrow> jsnum \<Rightarrow> bool" where
  "num_eq NaN b = False"
| "num_eq a NaN = False"
| "num_eq PInf b = (b = PInf)"
| "num_eq NInf b = (b = NInf)"
| "num_eq (Dec m1 e1) (Dec m2 e2) = (fst (aligned m1 e1 m2 e2) = snd (aligned m1 e1 m2 e2))"
| "num_eq (Dec m1 e1) b = False"

definition num_gt :: "jsnum \<Rightarrow> jsnum \<Rightarrow> bool" where
  "num_gt a b = num_lt b a"

text \<open>\<open>a >= b\<close> on numbers.\<close>

definition num_ge :: "jsnum \<Rightarrow> jsnum \<Rightarrow> bool" where
  "num_ge a b = (num_lt b a \<or> num_eq a b)"

text \<open>\<open>a - b\<close> on numbers.\<close>

fun num_sub :: "jsnum \<Rightarrow> jsnum \<Rightarrow> jsnum" where
  "num_sub NaN b = NaN"
| "num_sub a NaN = NaN"
| "num_sub PInf PInf = NaN"
| "num_sub NInf NInf = NaN"
| "num_sub PInf b = PInf"
| "num_sub NInf b = NInf"
| "num_sub a PInf = NInf"
| "num_sub a NInf = PInf"
| "num_sub (Dec m1 e1) (Dec m2 e2) =
     Dec (fst (aligned m1 e1 m2 e2) - snd (aligned m1 e1 m2 e2)) (min e1 e2)"

text \<open>The sign of a number, \<open>NaN\<close> counted as zero.\<close>

definition num_sign :: "jsnum \<Rightarrow> int" where
  "num_sign n = (case n of NaN \<Rightarrow> 0 | PInf \<Rightarrow> 1 | NInf \<Rightarrow> - 1 | Dec m e \<Rightarrow> sgn m)"

text \<open>\<open>a * b\<close> on numbers.\<close>

definition num_mul :: "jsnum \<Rightarrow> jsnum \<Rightarrow> jsnum" where
  "num_mul a b =
     (case (a, b) of
        (Dec m1 e1, Dec m2 e2) \<Rightarrow> Dec (m1 * m2) (e1 + e2)
      | _ \<Rightarrow>
        if is_nan a \<or> is_nan b \<or> num_sign a * num_sign b = 0 then NaN
        else if num_sign a * num_sign b < 0 then NInf else PInf)"

subsection \<open>Strings\<close>

fun index_of :: "char \<Rightarrow> string \<Rightarrow> nat option" where
  "index_of c [] = None"
| "index_of c (x # xs) = (if c = x then Some 0 else map_option Suc (index_of c xs))"

text \<open>
  A character is a UTF-16 code unit below 256, that is a character of Latin-1 (never a
  byte of UTF-8): \<open>CHR 0xC0\<close> is the letter A with grave. The letters with two cases
  in this range are A to Z and the accented capitals \<open>0xC0\<close> to \<open>0xDE\<close> without the
  multiplication sign \<open>0xD7\<close>; the small letter is 32 code units above its capital.
\<close>

definition upper_letters :: string where
  "upper_letters = ''ABCDEFGHIJKLMNOPQRSTUVWXYZ'' @
     [
        CHR 0xC0, CHR 0xC1, CHR 0xC2, CHR 0xC3, CHR 0xC4, CHR 0xC5, CHR 0xC6, CHR 0xC7,
        CHR 0xC8, CHR 0xC9, CHR 0xCA, CHR 0xCB, CHR 0xCC, CHR 0xCD, CHR 0xCE, CHR 0xCF,
        CHR 0xD0, CHR 0xD1, CHR 0xD2, CHR 0xD3, CHR 0xD4, CHR 0xD5, CHR 0xD6, CHR 0xD8,
        CHR 0xD9, CHR 0xDA, CHR 0xDB, CHR 0xDC, CHR 0xDD, CHR 0xDE]"

definition lower_letters :: string where
  "lower_letters = ''abcdefghijklmnopqrstuvwxyz'' @
     [
        CHR 0xE0, CHR 0xE1, CHR 0xE2, CHR 0xE3, CHR 0xE4, CHR 0xE5, CHR 0xE6, CHR 0xE7,
        CHR 0xE8, CHR 0xE9, CHR 0xEA, CHR 0xEB, CHR 0xEC, CHR 0xED, CHR 0xEE, CHR 0xEF,
        CHR 0xF0, CHR 0xF1, CHR 0xF2, CHR 0xF3, CHR 0xF4, CHR 0xF5, CHR 0xF6, CHR 0xF8,
        CHR 0xF9, CHR 0xFA, CHR 0xFB, CHR 0xFC, CHR 0xFD, CHR 0xFE]"

definition lower_char :: "char \<Rightarrow> char" where
  "lower_char c =
     (case index_of c upper_letters of None \<Rightarrow> c | Some i \<Rightarrow> lower_letters ! i)"

text \<open>Three small letters of the range have their capitals outside it (\<open>0xB5\<close>,
  \<open>0xDF\<close>, \<open>0xFF\<close>); \<open>upper_char\<close> leaves them as they are. The program
  capitalizes only the currency code, and no accepted code contains them.\<close>

definition upper_char :: "char \<Rightarrow> char" where
  "upper_char c =
     (case index_of c lower_letters of None \<Rightarrow> c | Some i \<Rightarrow> upper_letters ! i)"

text \<open>\<open>s.toLowerCase()\<close> and \<open>s.toUpperCase()\<close>.\<close>

definition toLowerCase :: "string \<Rightarrow> string" where
  "toLowerCase s = map lower_char s"

definition toUpperCase :: "string \<Rightarrow> string" where
  "toUpperCase s = map upper_char s"

text \<open>The order of strings by code units, as the relational operators and the default
  sort use it.\<close>

fun str_lt :: "string \<Rightarrow> string \<Rightarrow> bool" where
  "str_lt [] [] = False"
| "str_lt [] (y # ys) = True"
| "str_lt (x # xs) [] = False"
| "str_lt (x # xs) (y # ys) =
     ((of_char x :: nat) < of_char y \<or> (x = y \<and> str_lt xs ys))"

text \<open>\<open>s.split(',')\<close>.\<close>

fun split_comma :: "string \<Rightarrow> string list" where
  "split_comma [] = [[]]"
| "split_comma (c # cs) =
     (if c = CHR '','' then [] # split_comma cs
      else (case split_comma cs of [] \<Rightarrow> [[c]] | w # ws \<Rightarrow> (c # w) # ws))"

subsection \<open>Numbers to strings\<close>

definition digit_char :: "nat \<Rightarrow> char" where
  "digit_char d = ''0123456789'' ! d"

fun digits :: "nat \<Rightarrow> string" where
  "digits n = (if n < 10 then [digit_char n] else digits (n div 10) @ [digit_char (n mod 10)])"

declare digits.simps [simp del]

text \<open>
  \<open>Number::toString\<close> for a positive decimal \<open>m * 10 ^ e\<close>: with \<open>k\<close> significant digits
  and the decimal point after \<open>n\<close> of them, the four layouts of ECMAScript.
\<close>

definition pos_to_string :: "nat \<Rightarrow> int \<Rightarrow> string" where
  "pos_to_string m e =
     (let ds0 = digits m;
          ds = rev (dropWhile (\<lambda>c. c = CHR ''0'') (rev ds0));
          k = int (length ds);
          n = e + int (length ds0) in
      if k \<le> n \<and> n \<le> 21 then ds @ replicate (nat (n - k)) (CHR ''0'')
      else if 0 < n \<and> n \<le> 21 then take (nat n) ds @ ''.'' @ drop (nat n) ds
      else if - 6 < n \<and> n \<le> 0 then ''0.'' @ replicate (nat (- n)) (CHR ''0'') @ ds
      else (let es = (if n - 1 < 0 then ''-'' else ''+'') @ digits (nat \<bar>n - 1\<bar>) in
            if k = 1 then ds @ ''e'' @ es
            else take 1 ds @ ''.'' @ drop 1 ds @ ''e'' @ es))"

definition num_to_string :: "jsnum \<Rightarrow> string" where
  "num_to_string x =
     (case x of
        NaN \<Rightarrow> ''NaN''
      | PInf \<Rightarrow> ''Infinity''
      | NInf \<Rightarrow> ''-Infinity''
      | Dec m e \<Rightarrow>
          if m = 0 then ''0''
          else if m < 0 then ''-'' @ pos_to_string (nat (- m)) e
          else pos_to_string (nat m) e)"

text \<open>\<open>String(v)\<close>, as template literals and property keys apply it.\<close>

definition to_string :: "jsval \<Rightarrow> string" where
  "to_string v =
     (case v of
        JUndefined \<Rightarrow> ''undefined''
      | JNull \<Rightarrow> ''null''
      | JBool b \<Rightarrow> (if b then ''true'' else ''false'')
      | JNum n \<Rightarrow> num_to_string n
      | JStr s \<Rightarrow> s)"

text \<open>
  \<open>x.toFixed(2)\<close>: the sign, then the magnitude rounded to hundredths (ties upwards);
  from \<open>10 ^ 21\<close> on, the magnitude is printed as \<open>String\<close> prints it.
\<close>

definition hundredths :: "nat \<Rightarrow> int \<Rightarrow> nat" where
  "hundredths a e =
     (if 0 \<le> e + 2 then a * 10 ^ nat (e + 2)
      else (2 * a + 10 ^ nat (- (e + 2))) div (2 * 10 ^ nat (- (e + 2))))"

definition fixed2_digits :: "nat \<Rightarrow> string" where
  "fixed2_digits n =
     (let ds = replicate (3 - length (digits n)) (CHR ''0'') @ digits n in
      take (length ds - 2) ds @ ''.'' @ drop (length ds - 2) ds)"

definition toFixed2 :: "jsnum \<Rightarrow> string" where
  "toFixed2 x =
     (case x of
        NaN \<Rightarrow> ''NaN''
      | PInf \<Rightarrow> ''Infinity''
      | NInf \<Rightarrow> ''-Infinity''
      | Dec m e \<Rightarrow>
          (if m < 0 then ''-'' else '''') @
          (if num_ge (Dec \<bar>m\<bar> e) (Dec 1 21) then pos_to_string (nat \<bar>m\<bar>) e
           else fixed2_digits (hundredths (nat \<bar>m\<bar>) e)))"

subsection \<open>Strings to numbers\<close>

definition is_digit :: "char \<Rightarrow> bool" where
  "is_digit c = (index_of c ''0123456789'' \<noteq> None)"

text \<open>White space of a numeric string, within the 8-bit characters.\<close>

definition is_ws :: "char \<Rightarrow> bool" where
  "is_ws c = (index_of c [CHR 0x09, CHR 0x0A, CHR 0x0B, CHR 0x0C, CHR 0x0D, CHR 0x20, CHR 0xA0] \<noteq> None)"

definition trim :: "string \<Rightarrow> string" where
  "trim s = rev (dropWhile is_ws (rev (dropWhile is_ws s)))"

text \<open>The value of a digit string over an alphabet of digits; \<open>None\<close> at a foreign
  character.\<close>

fun digits_value :: "string \<Rightarrow> nat \<Rightarrow> string \<Rightarrow> nat option" where
  "digits_value alphabet acc [] = Some acc"
| "digits_value alphabet acc (c # cs) =
     (case index_of (lower_char c) alphabet of
        None \<Rightarrow> None
      | Some d \<Rightarrow> digits_value alphabet (acc * length alphabet + d) cs)"

definition decimal_value :: "string \<Rightarrow> nat" where
  "decimal_value ds = (case digits_value ''0123456789'' 0 ds of None \<Rightarrow> 0 | Some n \<Rightarrow> n)"

text \<open>An optional exponent part \<open>e[+-]ddd\<close> at the front of \<open>s\<close>: its value and the
  rest. Without digits there is no exponent part and nothing is consumed.\<close>

definition parse_exponent :: "string \<Rightarrow> int \<times> string" where
  "parse_exponent s =
     (case s of
        [] \<Rightarrow> (0, s)
      | c # t \<Rightarrow>
          if c = CHR ''e'' \<or> c = CHR ''E'' then
            (let neg = (t \<noteq> [] \<and> hd t = CHR ''-'');
                 u = (if t \<noteq> [] \<and> (hd t = CHR ''+'' \<or> hd t = CHR ''-'') then tl t else t);
                 ds = takeWhile is_digit u
             in if ds = [] then (0, s)
                else ((if neg then - int (decimal_value ds) else int (decimal_value ds)),
                      dropWhile is_digit u))
          else (0, s))"

text \<open>The longest unsigned decimal literal at the front of \<open>s\<close>: digits, an optional
  fraction, an optional exponent. The result is the mantissa, the exponent and the rest.\<close>

definition parse_unsigned :: "string \<Rightarrow> (int \<times> int \<times> string) option" where
  "parse_unsigned s =
     (let ip = takeWhile is_digit s;
          r1 = dropWhile is_digit s;
          has_dot = (r1 \<noteq> [] \<and> hd r1 = CHR ''.'');
          fp = (if has_dot then takeWhile is_digit (tl r1) else []);
          r2 = (if has_dot then dropWhile is_digit (tl r1) else r1)
      in if ip = [] \<and> fp = [] then None
         else Some (int (decimal_value (ip @ fp)),
                    fst (parse_exponent r2) - int (length fp),
                    snd (parse_exponent r2)))"

text \<open>The longest signed decimal literal (or \<open>Infinity\<close>) at the front of \<open>s\<close>.\<close>

definition parse_signed :: "string \<Rightarrow> (jsnum \<times> string) option" where
  "parse_signed s =
     (let neg = (s \<noteq> [] \<and> hd s = CHR ''-'');
          u = (if s \<noteq> [] \<and> (hd s = CHR ''+'' \<or> hd s = CHR ''-'') then tl s else s)
      in if take 8 u = ''Infinity'' then Some (if neg then NInf else PInf, drop 8 u)
         else (case parse_unsigned u of
                 None \<Rightarrow> None
               | Some (m, e, r) \<Rightarrow> Some (Dec (if neg then - m else m) e, r)))"

definition radix_value :: "string \<Rightarrow> string \<Rightarrow> jsnum" where
  "radix_value alphabet ds =
     (if ds = [] then NaN
      else (case digits_value alphabet 0 ds of None \<Rightarrow> NaN | Some n \<Rightarrow> Dec (int n) 0))"

text \<open>\<open>Number(s)\<close> for a string: white space trimmed, the empty string is 0, then a
  hexadecimal, octal or binary literal or a signed decimal literal that uses the whole
  string; anything else is \<open>NaN\<close>.\<close>

definition string_to_number :: "string \<Rightarrow> jsnum" where
  "string_to_number s =
     (let t = trim s in
      if t = [] then Dec 0 0
      else if take 2 t = ''0x'' \<or> take 2 t = ''0X'' then radix_value ''0123456789abcdef'' (drop 2 t)
      else if take 2 t = ''0o'' \<or> take 2 t = ''0O'' then radix_value ''01234567'' (drop 2 t)
      else if take 2 t = ''0b'' \<or> take 2 t = ''0B'' then radix_value ''01'' (drop 2 t)
      else (case parse_signed t of
              None \<Rightarrow> NaN
            | Some (n, r) \<Rightarrow> if r = [] then n else NaN))"

text \<open>\<open>parseFloat(s)\<close>: leading white space skipped, then the longest decimal literal.\<close>

definition parseFloat :: "string \<Rightarrow> jsnum" where
  "parseFloat s = (case parse_signed (dropWhile is_ws s) of None \<Rightarrow> NaN | Some (n, r) \<Rightarrow> n)"

subsection \<open>Conversions and operators\<close>

text \<open>\<open>+v\<close>.\<close>

definition to_number :: "jsval \<Rightarrow> jsnum" where
  "to_number v =
     (case v of
        JUndefined \<Rightarrow> NaN
      | JNull \<Rightarrow> Dec 0 0
      | JBool b \<Rightarrow> (if b then Dec 1 0 else Dec 0 0)
      | JNum n \<Rightarrow> n
      | JStr s \<Rightarrow> string_to_number s)"

definition truthy :: "jsval \<Rightarrow> bool" where
  "truthy v =
     (case v of
        JUndefined \<Rightarrow> False
      | JNull \<Rightarrow> False
      | JBool b \<Rightarrow> b
      | JNum n \<Rightarrow> (case n of NaN \<Rightarrow> False | Dec m e \<Rightarrow> m \<noteq> 0 | _ \<Rightarrow> True)
      | JStr s \<Rightarrow> s \<noteq> [])"

text \<open>\<open>a && b\<close> and \<open>a || b\<close> (the right operand has no effect in this program).\<close>

definition js_and :: "jsval \<Rightarrow> jsval \<Rightarrow> jsval" where
  "js_and a b = (if truthy a then b else a)"

definition js_or :: "jsval \<Rightarrow> jsval \<Rightarrow> jsval" where
  "js_or a b = (if truthy a then a else b)"

text \<open>The global \<open>isNaN(v)\<close>.\<close>

definition isNaN :: "jsval \<Rightarrow> bool" where
  "isNaN v = is_nan (to_number v)"

section \<open>validation.js\<close>

definition validateNumber :: "jsval \<Rightarrow> jsnum outcome" where
  "validateNumber v =
     (if isNaN v \<and> num_ge (to_number v) (Dec 0 0)
      then Exit ''Please input a valid parameter.''
      else Returned (to_number v))"

definition availableCurrencies :: "string list" where
  "availableCurrencies =
     [''USD'', ''AUD'', ''BRL'', ''CAD'', ''CHF'', ''CLP'', ''CNY'', ''CZK'', ''DKK'',
      ''EUR'', ''GBP'', ''HKD'', ''HUF'', ''IDR'', ''ILS'', ''INR'', ''JPY'', ''KRW'',
      ''MXN'', ''MYR'', ''NOK'', ''NZD'', ''PHP'', ''PKR'', ''PLN'', ''RUB'', ''SEK'',
      ''SGD'', ''THB'', ''TRY'', ''TWD'', ''ZAR'', ''BTC'']"

definition validateConvertCurrency :: "string \<Rightarrow> string outcome" where
  "validateConvertCurrency v =
     (if toUpperCase v \<in> set availableCurrencies
      then Returned (toUpperCase v)
      else Exit ''We cannot convert to your currency.'')"

section \<open>index.js: options and collaborators\<close>

text \<open>\<open>list\<close>, the parser of the comma separated options.\<close>

definition list_arg :: "string \<Rightarrow> string list" where
  "list_arg v = (if v \<noteq> [] then split_comma v else [])"

text \<open>
  The options after parsing (\<open>program.convert\<close>, \<open>find\<close>, \<open>portfolio\<close>, \<open>column\<close>,
  \<open>rank\<close>) and the entries of the portfolio file, read before the request.
  \<open>portfolio\<close> is the truth value of the option.
\<close>

record config =
  program_convert :: string
  find_list :: "string list"
  portfolio :: bool
  column :: "string list"
  rank :: jsnum
  portfolioCoins :: "(string \<times> jsval) list"

text \<open>The defaults of the options.\<close>

definition default_config :: config where
  "default_config =
     \<lparr>program_convert = ''USD'', find_list = [], portfolio = False, column = [],
      rank = Dec 0 0, portfolioCoins = []\<rparr>"

text \<open>
  The libraries the pipeline calls are parameters: the colours of \<open>colors\<close>,
  \<open>humanize.compactInteger(x, 3)\<close>, and the host's \<open>localeCompare\<close>.
\<close>

record env =
  green :: "string \<Rightarrow> string"
  red :: "string \<Rightarrow> string"
  yellow :: "string \<Rightarrow> string"
  compactInteger :: "jsval \<Rightarrow> string"
  localeCompare :: "string \<Rightarrow> string \<Rightarrow> jsnum"

definition convert :: "config \<Rightarrow> string" where
  "convert cfg = toUpperCase (program_convert cfg)"

definition marketcapConvert :: "config \<Rightarrow> string" where
  "marketcapConvert cfg = (if convert cfg = ''BTC'' then ''USD'' else convert cfg)"

section \<open>index.js: the table header and the column selection\<close>

definition defaultHeader :: "env \<Rightarrow> config \<Rightarrow> string list" where
  "defaultHeader env cfg =
     map (yellow env)
       [''Rank'', ''Coin'', ''Price '' @ convert cfg, ''Change 1H'', ''Change 24H'',
        ''Change 7D'', ''Market Cap '' @ marketcapConvert cfg]
     @ (if portfolio cfg then [yellow env ''Balance'', yellow env ''Estimated Value''] else [])"

definition defaultColumns :: "env \<Rightarrow> config \<Rightarrow> jsnum list" where
  "defaultColumns env cfg = map (\<lambda>i. Dec (int i) 0) [0..<length (defaultHeader env cfg)]"

definition columns :: "env \<Rightarrow> config \<Rightarrow> jsnum list" where
  "columns env cfg =
     (if column cfg \<noteq> []
      then filter (\<lambda>index. \<not> isNaN (JNum index)
                          \<and> num_lt index (Dec (int (length (defaultHeader env cfg))) 0))
             (map (\<lambda>index. to_number (JStr index)) (column cfg))
      else defaultColumns env cfg)"

text \<open>
  \<open>sort()\<close> without a comparator orders the elements by their string forms.
  Elements with the same string form are the same number, so every sort the language
  admits gives this list; here they keep their order.
\<close>

fun insert_default :: "jsnum \<Rightarrow> jsnum list \<Rightarrow> jsnum list" where
  "insert_default x [] = [x]"
| "insert_default x (y # ys) =
     (if str_lt (num_to_string y) (num_to_string x) then y # insert_default x ys
      else x # y # ys)"

definition sort_default :: "jsnum list \<Rightarrow> jsnum list" where
  "sort_default xs = foldr insert_default xs []"

definition sortedColumns :: "env \<Rightarrow> config \<Rightarrow> jsnum list" where
  "sortedColumns env cfg = sort_default (columns env cfg)"

text \<open>\<open>xs[i]\<close> for a number \<open>i\<close>: the element when \<open>i\<close> is an integer from 0 below the
  length, \<open>undefined\<close> otherwise.\<close>

definition num_to_index :: "jsnum \<Rightarrow> nat option" where
  "num_to_index i =
     (case i of
        Dec m e \<Rightarrow>
          if m < 0 then None
          else if 0 \<le> e then Some (nat (m * 10 ^ nat e))
          else if m mod 10 ^ nat (- e) = 0 then Some (nat (m div 10 ^ nat (- e)))
          else None
      | _ \<Rightarrow> None)"

definition array_get :: "jsval list \<Rightarrow> jsnum \<Rightarrow> jsval" where
  "array_get xs i =
     (case num_to_index i of
        None \<Rightarrow> JUndefined
      | Some n \<Rightarrow> if n < length xs then xs ! n else JUndefined)"

definition header :: "env \<Rightarrow> config \<Rightarrow> jsval list" where
  "header env cfg =
     map (\<lambda>index. array_get (map JStr (defaultHeader env cfg)) index) (sortedColumns env cfg)"

section \<open>index.js: the keys\<close>

definition priceKey :: "config \<Rightarrow> string" where
  "priceKey cfg = toLowerCase (''price_'' @ convert cfg)"

definition marketCapKey :: "config \<Rightarrow> string" where
  "marketCapKey cfg = toLowerCase (''market_cap_'' @ marketcapConvert cfg)"

definition volume24hKey :: "config \<Rightarrow> string" where
  "volume24hKey cfg = toLowerCase (''24h_volume_'' @ marketcapConvert cfg)"

text \<open>\<open>keysMap\<close>: an object, so its keys are the string forms of the indices.\<close>

definition keysMap :: "env \<Rightarrow> config \<Rightarrow> (string \<rightharpoonup> string)" where
  "keysMap env cfg =
     (let base = [''0'' \<mapsto> ''rank'', ''1'' \<mapsto> ''symbol'', ''2'' \<mapsto> priceKey cfg,
                  ''3'' \<mapsto> ''percent_change_1h'', ''4'' \<mapsto> ''percent_change_24h'',
                  ''5'' \<mapsto> ''percent_change_7d'', ''6'' \<mapsto> marketCapKey cfg];
          n = int (length (defaultHeader env cfg))
      in if portfolio cfg
         then base(num_to_string (Dec (n - 1) 0) \<mapsto> ''portfolio_balance'',
                   num_to_string (Dec n 0) \<mapsto> ''portfolio_estimated_value'')
         else base)"

section \<open>index.js: the filter stage\<close>

text \<open>\<open>keywords.some(keyword => rec.symbol.toLowerCase() === keyword.toLowerCase())\<close>:
  no call on an empty list, a \<open>TypeError\<close> at the first call when the symbol is not a
  string.\<close>

definition symbol_matches :: "obj \<Rightarrow> string list \<Rightarrow> error + bool" where
  "symbol_matches r keywords =
     (if keywords = [] then Inr False
      else (case get r ''symbol'' of
              JStr s \<Rightarrow> Inr (list_ex (\<lambda>keyword. toLowerCase s = toLowerCase keyword) keywords)
            | _ \<Rightarrow> Inl TypeError))"

definition keeps :: "config \<Rightarrow> obj \<Rightarrow> error + bool" where
  "keeps cfg r =
     (if portfolio cfg then symbol_matches r (map fst (portfolioCoins cfg))
      else if find_list cfg \<noteq> [] then symbol_matches r (find_list cfg)
      else Inr True)"

fun filter_stage :: "config \<Rightarrow> obj list \<Rightarrow> error + obj list" where
  "filter_stage cfg [] = Inr []"
| "filter_stage cfg (r # rs) =
     (case keeps cfg r of
        Inl e \<Rightarrow> Inl e
      | Inr b \<Rightarrow>
          (case filter_stage cfg rs of
             Inl e \<Rightarrow> Inl e
           | Inr kept \<Rightarrow> Inr (if b then r # kept else kept)))"

section \<open>index.js: the normalization stage\<close>

text \<open>\<open>x && +x\<close>.\<close>

definition numeric :: "jsval \<Rightarrow> jsval" where
  "numeric x = js_and x (JNum (to_number x))"

definition editedRecord :: "config \<Rightarrow> obj \<Rightarrow> error + obj" where
  "editedRecord cfg r =
     (let e0 = [''name'' \<mapsto> get r ''name'',
                ''symbol'' \<mapsto> get r ''symbol'',
                ''rank'' \<mapsto> numeric (get r ''rank''),
                ''available_supply'' \<mapsto> numeric (get r ''available_supply''),
                ''total_supply'' \<mapsto> numeric (get r ''total_supply''),
                ''max_supply'' \<mapsto> numeric (get r ''max_supply''),
                ''percent_change_1h'' \<mapsto> numeric (get r ''percent_change_1h''),
                ''percent_change_24h'' \<mapsto> numeric (get r ''percent_change_24h''),
                ''percent_change_7d'' \<mapsto> numeric (get r ''percent_change_7d''),
                ''last_updated'' \<mapsto> get r ''last_updated''];
          e1 = e0(priceKey cfg \<mapsto> numeric (get r (priceKey cfg)));
          e2 = e1(volume24hKey cfg \<mapsto> numeric (get r (volume24hKey cfg)));
          e3 = e2(marketCapKey cfg \<mapsto> numeric (get r (marketCapKey cfg)))
      in if portfolio cfg then
           (case get r ''symbol'' of
              JStr s \<Rightarrow>
                (let holding = (case map_of (portfolioCoins cfg) (toLowerCase s) of
                                  None \<Rightarrow> JUndefined | Some v \<Rightarrow> v);
                     portfolioGross = num_mul (to_number holding)
                                        (parseFloat (to_string (get r (priceKey cfg))))
                 in Inr (e3(''portfolio_balance'' \<mapsto> holding,
                            ''portfolio_estimated_value'' \<mapsto> JNum portfolioGross)))
            | _ \<Rightarrow> Inl TypeError)
         else Inr e3)"

section \<open>index.js: the sort stage\<close>

text \<open>The comparator handed to \<open>sort\<close>. \<open>localeCompare\<close> is a method of strings only.\<close>

definition comparator :: "env \<Rightarrow> config \<Rightarrow> obj \<Rightarrow> obj \<Rightarrow> error + jsnum" where
  "comparator env cfg recordA recordB =
     (case keysMap env cfg (num_to_string (rank cfg)) of
        None \<Rightarrow> Inr (Dec (- 1) 0)
      | Some compareKey \<Rightarrow>
          if num_eq (rank cfg) (Dec 0 0) \<or> compareKey = [] then Inr (Dec (- 1) 0)
          else if num_eq (rank cfg) (Dec 1 0) then
            (case get recordA compareKey of
               JStr s \<Rightarrow> Inr (localeCompare env s (to_string (get recordB compareKey)))
             | _ \<Rightarrow> Inl TypeError)
          else Inr (num_sub (to_number (get recordB compareKey))
                            (to_number (get recordA compareKey))))"

text \<open>
  \<open>Array.prototype.sort\<close> belongs to the host, so the stage takes it as the parameter
  \<open>srt\<close>. ECMAScript fixes its result only for a consistent comparator: one that
  always returns a number other than \<open>NaN\<close> and orders the elements as a total
  preorder. For any other comparator the order of the result is left to the host.
\<close>

definition sort_stage ::
  "((obj \<Rightarrow> obj \<Rightarrow> error + jsnum) \<Rightarrow> obj list \<Rightarrow> error + obj list)
     \<Rightarrow> env \<Rightarrow> config \<Rightarrow> obj list \<Rightarrow> error + obj list" where
  "sort_stage srt env cfg records = srt (comparator env cfg) records"

text \<open>
  The contract. \<open>cmp_le cmp a b\<close>: the comparator returns a number that is not positive,
  so \<open>a\<close> may stand before \<open>b\<close>. A comparator is consistent on a set when each call
  returns a number other than \<open>NaN\<close>, swapping the arguments swaps the sign (so an
  element equals itself), and \<open>cmp_le\<close> is transitive. A sort meets the contract when,
  for a comparator consistent on the elements, it returns a permutation of them in which
  every element may stand before every later one.
\<close>

definition cmp_le :: "('a \<Rightarrow> 'a \<Rightarrow> error + jsnum) \<Rightarrow> 'a \<Rightarrow> 'a \<Rightarrow> bool" where
  "cmp_le cmp a b = (\<exists>v. cmp a b = Inr v \<and> num_sign v \<le> 0)"

definition consistent_on :: "('a \<Rightarrow> 'a \<Rightarrow> error + jsnum) \<Rightarrow> 'a set \<Rightarrow> bool" where
  "consistent_on cmp S \<longleftrightarrow>
     (\<forall>a\<in>S. \<forall>b\<in>S. \<exists>v w. cmp a b = Inr v \<and> \<not> is_nan v \<and>
                            cmp b a = Inr w \<and> num_sign w = - num_sign v) \<and>
     (\<forall>a\<in>S. \<forall>b\<in>S. \<forall>c\<in>S. cmp_le cmp a b \<and> cmp_le cmp b c \<longrightarrow> cmp_le cmp a c)"

definition sort_contract ::
  "(('a \<Rightarrow> 'a \<Rightarrow> error + jsnum) \<Rightarrow> 'a list \<Rightarrow> error + 'a list) \<Rightarrow> bool" where
  "sort_contract srt \<longleftrightarrow>
     (\<forall>cmp xs. consistent_on cmp (set xs) \<longrightarrow>
        (\<exists>ys. srt cmp xs = Inr ys \<and> mset ys = mset xs \<and> sorted_wrt (cmp_le cmp) ys))"

section \<open>Two hosts\<close>

text \<open>
  An insertion sort that moves an element to the left past every element the comparator
  puts after it (\<open>order > 0\<close>), as V8 sorted short arrays up to Node 10. The sorted
  prefix is kept reversed, its last element first.
\<close>

fun insert_left ::
  "('a \<Rightarrow> 'a \<Rightarrow> error + jsnum) \<Rightarrow> 'a \<Rightarrow> 'a list \<Rightarrow> error + 'a list" where
  "insert_left cmp element [] = Inr [element]"
| "insert_left cmp element (tmp # rest) =
     (case cmp tmp element of
        Inl e \<Rightarrow> Inl e
      | Inr order \<Rightarrow>
          if 0 < num_sign order then
            (case insert_left cmp element rest of
               Inl e \<Rightarrow> Inl e
             | Inr placed \<Rightarrow> Inr (tmp # placed))
          else Inr (element # tmp # rest))"

fun insertion_loop ::
  "('a \<Rightarrow> 'a \<Rightarrow> error + jsnum) \<Rightarrow> 'a list \<Rightarrow> 'a list \<Rightarrow> error + 'a list" where
  "insertion_loop cmp sorted_rev [] = Inr (rev sorted_rev)"
| "insertion_loop cmp sorted_rev (element # todo) =
     (case insert_left cmp element sorted_rev of
        Inl e \<Rightarrow> Inl e
      | Inr placed \<Rightarrow> insertion_loop cmp placed todo)"

definition insertion_sort :: "('a \<Rightarrow> 'a \<Rightarrow> error + jsnum) \<Rightarrow> 'a list \<Rightarrow> error + 'a list" where
  "insertion_sort cmp xs = insertion_loop cmp [] xs"

text \<open>
  A sort that first looks for a run, as the merge sort of V8 does from Node 11 on: it
  compares each element with the one before it, and when every comparison is negative
  the whole array is one descending run and is reversed. Otherwise the elements are
  inserted one by one.
\<close>

fun descending_run :: "('a \<Rightarrow> 'a \<Rightarrow> error + jsnum) \<Rightarrow> 'a list \<Rightarrow> error + bool" where
  "descending_run cmp (x # y # zs) =
     (case cmp y x of
        Inl e \<Rightarrow> Inl e
      | Inr order \<Rightarrow> if num_sign order < 0 then descending_run cmp (y # zs) else Inr False)"
| "descending_run cmp xs = Inr True"

definition run_sort :: "('a \<Rightarrow> 'a \<Rightarrow> error + jsnum) \<Rightarrow> 'a list \<Rightarrow> error + 'a list" where
  "run_sort cmp xs =
     (if length xs < 2 then Inr xs
      else (case descending_run cmp xs of
              Inl e \<Rightarrow> Inl e
            | Inr whole \<Rightarrow> if whole then Inr (rev xs) else insertion_sort cmp xs))"

section \<open>index.js: the display rows\<close>

definition getColoredChangeValueText :: "env \<Rightarrow> jsval \<Rightarrow> jsval" where
  "getColoredChangeValueText env v =
     (let text = to_string v @ ''%''
      in js_or (js_and v (JStr (if num_gt (to_number v) (Dec 0 0) then green env text
                                else red env text)))
               (JStr ''NA''))"

definition defaultValues :: "env \<Rightarrow> config \<Rightarrow> obj \<Rightarrow> error + jsval list" where
  "defaultValues env cfg r =
     (let marketCap = get r (marketCapKey cfg);
          displayedMarketCap =
            js_or (js_and marketCap (JStr (compactInteger env marketCap))) (JStr ''NA'');
          shown = [get r ''rank'',
                   get r ''symbol'',
                   get r (priceKey cfg),
                   getColoredChangeValueText env (get r ''percent_change_1h''),
                   getColoredChangeValueText env (get r ''percent_change_24h''),
                   getColoredChangeValueText env (get r ''percent_change_7d''),
                   displayedMarketCap]
      in if portfolio cfg then
           (case get r ''portfolio_estimated_value'' of
              JNum x \<Rightarrow> Inr (shown @ [get r ''portfolio_balance'', JStr (toFixed2 x)])
            | _ \<Rightarrow> Inl TypeError)
         else Inr shown)"

definition values_row :: "env \<Rightarrow> config \<Rightarrow> obj \<Rightarrow> error + jsval list" where
  "values_row env cfg r =
     (case defaultValues env cfg r of
        Inl e \<Rightarrow> Inl e
      | Inr shown \<Rightarrow> Inr (map (\<lambda>index. array_get shown index) (sortedColumns env cfg)))"

section \<open>Sample collaborators and inputs\<close>

text \<open>Colours switched off, a market cap printed as it is, strings compared by code
  units.\<close>

definition plain_env :: env where
  "plain_env =
     \<lparr>green = (\<lambda>s. s), red = (\<lambda>s. s), yellow = (\<lambda>s. s),
      compactInteger = to_string,
      localeCompare = (\<lambda>a b. if str_lt a b then Dec (- 1) 0
                              else if str_lt b a then Dec 1 0 else Dec 0 0)\<rparr>"

definition coin :: "string \<Rightarrow> jsval \<Rightarrow> obj" where
  "coin s cap = [''symbol'' \<mapsto> JStr s, ''market_cap_usd'' \<mapsto> cap]"

section \<open>Notions used in the statements\<close>

text \<open>The fields the normalization stage writes as \<open>x && +x\<close>.\<close>

definition numeric_fields :: "config \<Rightarrow> string list" where
  "numeric_fields cfg =
     [''rank'', ''available_supply'', ''total_supply'', ''max_supply'',
      ''percent_change_1h'', ''percent_change_24h'', ''percent_change_7d'',
      priceKey cfg, volume24hKey cfg, marketCapKey cfg]"

text \<open>The position a selected number projects: the number itself when it is an integer
  from 0 below the header's length.\<close>

definition valid_index :: "nat \<Rightarrow> jsnum \<Rightarrow> nat option" where
  "valid_index len index =
     (case num_to_index index of None \<Rightarrow> None | Some n \<Rightarrow> if n < len then Some n else None)"

text \<open>The positions of the default header that the selection projects, in the order of
  projection.\<close>

definition column_indices :: "env \<Rightarrow> config \<Rightarrow> nat list" where
  "column_indices env cfg =
     List.map_filter (valid_index (length (defaultHeader env cfg))) (sortedColumns env cfg)"

text \<open>The code units of the string form of a number, the key of the default sort.\<close>

definition string_key :: "jsnum \<Rightarrow> nat list" where
  "string_key x = map of_char (num_to_string x)"

section \<open>The value of a finite number\<close>

text \<open>The rational a finite number stands for; it is used to reason about the order of
  numbers, never by the program.\<close>

definition dec_value :: "jsnum \<Rightarrow> rat" where
  "dec_value n = (case n of Dec m e \<Rightarrow> of_int m * 10 powi e | _ \<Rightarrow> 0)"

section \<open>Properties\<close>

subsection \<open>The validators\<close>

lemma validateNumber_returns: "validateNumber v = Returned (to_number v)"
  by (cases "to_number v") (simp_all add: validateNumber_def isNaN_def is_nan_def num_ge_def)

text \<open>
  Claim C1. The claim: an invalid argument of \<open>--top\<close> or \<open>--rank\<close> (negative or not a
  number) is reported and ends the process, and a valid one is returned as a number.
  The code never takes the reporting branch: its test asks for a value that is \<open>NaN\<close>
  and at least 0 at once. On \<open>abc\<close> the validator returns \<open>NaN\<close>, on \<open>-5\<close> it returns
  \<open>-5\<close>.
\<close>

theorem validateNumber_accepts_invalid:
  "validateNumber (JStr ''abc'') = Returned NaN \<and>
   validateNumber (JStr ''-5'') = Returned (Dec (- 5) 0)"
  by code_simp

subsection \<open>The two hosts meet the contract of sort\<close>

lemma consistent_total:
  "consistent_on cmp S \<Longrightarrow> a \<in> S \<Longrightarrow> b \<in> S \<Longrightarrow> \<exists>v. cmp a b = Inr v"
  unfolding consistent_on_def by blast

lemma consistent_gt:
  assumes "consistent_on cmp S" "a \<in> S" "b \<in> S" "cmp a b = Inr v" "0 < num_sign v"
  shows "cmp_le cmp b a"
proof -
  from assms(1-3) obtain v' w where "cmp a b = Inr v'" "cmp b a = Inr w" "num_sign w = - num_sign v'"
    unfolding consistent_on_def by blast
  with assms(4,5) show ?thesis unfolding cmp_le_def by simp
qed

lemma consistent_trans:
  "consistent_on cmp S \<Longrightarrow> a \<in> S \<Longrightarrow> b \<in> S \<Longrightarrow> c \<in> S \<Longrightarrow> cmp_le cmp a b \<Longrightarrow> cmp_le cmp b c
    \<Longrightarrow> cmp_le cmp a c"
  unfolding consistent_on_def by blast

lemma insert_left_sorted:
  assumes "consistent_on cmp S" "x \<in> S"
  shows "set acc \<subseteq> S \<Longrightarrow> sorted_wrt (\<lambda>a b. cmp_le cmp b a) acc \<Longrightarrow>
    \<exists>r. insert_left cmp x acc = Inr r \<and> mset r = add_mset x (mset acc)
       \<and> sorted_wrt (\<lambda>a b. cmp_le cmp b a) r"
proof (induction acc)
  case Nil
  then show ?case by simp
next
  case (Cons tmp rest)
  from Cons.prems have tmpS: "tmp \<in> S" and restS: "set rest \<subseteq> S"
    and below: "\<forall>y\<in>set rest. cmp_le cmp y tmp"
    and srest: "sorted_wrt (\<lambda>a b. cmp_le cmp b a) rest"
    by auto
  from consistent_total[OF assms(1) tmpS assms(2)] obtain order where ord: "cmp tmp x = Inr order"
    by blast
  show ?case
  proof (cases "0 < num_sign order")
    case True
    from Cons.IH[OF restS srest] obtain placed where
      p: "insert_left cmp x rest = Inr placed" "mset placed = add_mset x (mset rest)"
         "sorted_wrt (\<lambda>a b. cmp_le cmp b a) placed"
      by blast
    have xle: "cmp_le cmp x tmp"
      by (rule consistent_gt[OF assms(1) tmpS assms(2) ord True])
    have "set placed = insert x (set rest)"
      using p(2) by (metis set_mset_add_mset_insert set_mset_mset)
    with below xle have "\<forall>y\<in>set placed. cmp_le cmp y tmp" by auto
    with p ord True show ?thesis by simp
  next
    case False
    have le: "cmp_le cmp tmp x" using ord False unfolding cmp_le_def by simp
    have "\<forall>y\<in>set rest. cmp_le cmp y x"
    proof
      fix y assume y: "y \<in> set rest"
      with below have "cmp_le cmp y tmp" by blast
      moreover from y restS have "y \<in> S" by blast
      ultimately show "cmp_le cmp y x"
        using consistent_trans[OF assms(1) _ tmpS assms(2) _ le] by blast
    qed
    with le below srest ord False show ?thesis by simp
  qed
qed

lemma insertion_loop_sorted:
  assumes "consistent_on cmp S"
  shows "set acc \<subseteq> S \<Longrightarrow> set xs \<subseteq> S \<Longrightarrow> sorted_wrt (\<lambda>a b. cmp_le cmp b a) acc \<Longrightarrow>
    \<exists>ys. insertion_loop cmp acc xs = Inr ys \<and> mset ys = mset acc + mset xs
       \<and> sorted_wrt (cmp_le cmp) ys"
proof (induction xs arbitrary: acc)
  case Nil
  then show ?case by (simp add: sorted_wrt_rev)
next
  case (Cons x xs)
  from Cons.prems have xS: "x \<in> S" and xsS: "set xs \<subseteq> S" by auto
  from insert_left_sorted[OF assms xS Cons.prems(1) Cons.prems(3)] obtain placed where
    p: "insert_left cmp x acc = Inr placed" "mset placed = add_mset x (mset acc)"
       "sorted_wrt (\<lambda>a b. cmp_le cmp b a) placed"
    by blast
  have "set placed = insert x (set acc)"
    using p(2) by (metis set_mset_add_mset_insert set_mset_mset)
  with xS Cons.prems(1) have pS: "set placed \<subseteq> S" by auto
  from Cons.IH[OF pS xsS p(3)] p show ?case by auto
qed

lemma insertion_sort_contract: "sort_contract insertion_sort"
  unfolding sort_contract_def insertion_sort_def
proof (intro allI impI)
  fix cmp :: "'a \<Rightarrow> 'a \<Rightarrow> error + jsnum" and xs
  assume "consistent_on cmp (set xs)"
  from insertion_loop_sorted[OF this, of "[]" xs]
  show "\<exists>ys. insertion_loop cmp [] xs = Inr ys \<and> mset ys = mset xs \<and> sorted_wrt (cmp_le cmp) ys"
    by simp
qed

lemma descending_run_sorted:
  "consistent_on cmp S \<Longrightarrow> set xs \<subseteq> S \<Longrightarrow>
    \<exists>b. descending_run cmp xs = Inr b \<and> (b \<longrightarrow> sorted_wrt (\<lambda>a b. cmp_le cmp b a) xs)"
proof (induction cmp xs rule: descending_run.induct)
  case (1 cmp x y zs)
  note cons = "1.prems"(1)
  from "1.prems" have xS: "x \<in> S" and yS: "y \<in> S" and zsS: "set (y # zs) \<subseteq> S" by auto
  from consistent_total[OF cons yS xS] obtain order where ord: "cmp y x = Inr order" by blast
  show ?case
  proof (cases "num_sign order < 0")
    case True
    from "1.IH"[OF ord True cons zsS] obtain b where
      b: "descending_run cmp (y # zs) = Inr b" "b \<longrightarrow> sorted_wrt (\<lambda>a b. cmp_le cmp b a) (y # zs)"
      by blast
    have yx: "cmp_le cmp y x" using ord True unfolding cmp_le_def by simp
    have "b \<longrightarrow> (\<forall>z\<in>set zs. cmp_le cmp z x)"
    proof (intro impI ballI)
      fix z assume "b" and z: "z \<in> set zs"
      with b(2) have "cmp_le cmp z y" by simp
      moreover from z zsS have "z \<in> S" by auto
      ultimately show "cmp_le cmp z x"
        using consistent_trans[OF cons _ yS xS _ yx] by blast
    qed
    with b yx ord True show ?thesis by simp
  next
    case False
    with ord have "descending_run cmp (x # y # zs) = Inr False" by simp
    then show ?thesis by blast
  qed
qed auto

lemma run_sort_contract: "sort_contract run_sort"
  unfolding sort_contract_def
proof (intro allI impI)
  fix cmp :: "'a \<Rightarrow> 'a \<Rightarrow> error + jsnum" and xs
  assume c: "consistent_on cmp (set xs)"
  from descending_run_sorted[OF c subset_refl] obtain b where
    b: "descending_run cmp xs = Inr b" "b \<longrightarrow> sorted_wrt (\<lambda>a b. cmp_le cmp b a) xs"
    by blast
  from insertion_sort_contract c obtain ys where
    ys: "insertion_sort cmp xs = Inr ys" "mset ys = mset xs" "sorted_wrt (cmp_le cmp) ys"
    unfolding sort_contract_def by blast
  show "\<exists>ys. run_sort cmp xs = Inr ys \<and> mset ys = mset xs \<and> sorted_wrt (cmp_le cmp) ys"
  proof (cases "length xs < 2")
    case True
    then have "xs = [] \<or> (\<exists>x. xs = [x])"
      by (cases xs) (auto simp: less_Suc_eq_le numeral_2_eq_2)
    then show ?thesis by (auto simp: run_sort_def)
  next
    case False
    show ?thesis
    proof (cases b)
      case True
      with b False show ?thesis by (simp add: run_sort_def sorted_wrt_rev)
    next
      case False
      with b ys \<open>\<not> length xs < 2\<close> show ?thesis by (simp add: run_sort_def)
    qed
  qed
qed

subsection \<open>The order of finite numbers\<close>

lemma dec_scale:
  assumes "e0 \<le> e"
  shows "(of_int m :: rat) * 10 powi e = of_int (m * 10 ^ nat (e - e0)) * 10 powi e0"
proof -
  have "(10::rat) powi e = 10 powi (int (nat (e - e0)) + e0)" using assms by simp
  also have "\<dots> = 10 powi int (nat (e - e0)) * 10 powi e0"
    by (rule power_int_add) simp
  also have "\<dots> = 10 ^ nat (e - e0) * 10 powi e0" by (simp only: power_int_of_nat)
  finally show ?thesis by simp
qed

lemma aligned_le_iff:
  "fst (aligned m1 e1 m2 e2) \<le> snd (aligned m1 e1 m2 e2)
     \<longleftrightarrow> dec_value (Dec m1 e1) \<le> dec_value (Dec m2 e2)"
proof -
  let ?e = "min e1 e2"
  have pos: "(0::rat) < 10 powi ?e" by (rule zero_less_power_int) simp
  have "dec_value (Dec m1 e1) = of_int (fst (aligned m1 e1 m2 e2)) * 10 powi ?e"
    unfolding dec_value_def aligned_def by (simp add: dec_scale[of ?e e1])
  moreover have "dec_value (Dec m2 e2) = of_int (snd (aligned m1 e1 m2 e2)) * 10 powi ?e"
    unfolding dec_value_def aligned_def by (simp add: dec_scale[of ?e e2])
  moreover have "\<not> (10::rat) powi ?e < 0" using pos by linarith
  ultimately show ?thesis by (simp add: mult_le_cancel_right)
qed

lemma num_lt_not_eq: "num_lt a b \<Longrightarrow> \<not> num_eq b a"
  by (cases a; cases b) (auto simp: aligned_def min.commute)

lemma num_lt_zero_not_eq: "num_lt (Dec 1 0) r \<Longrightarrow> \<not> num_eq r (Dec 0 0)"
  by (cases r) (auto simp: aligned_def min_def split: if_splits)

subsection \<open>The comparator on numeric fields\<close>

lemma length_defaultHeader: "length (defaultHeader env cfg) = (if portfolio cfg then 9 else 7)"
  by (simp add: defaultHeader_def)

lemma num_to_string_8: "num_to_string (Dec 8 0) = ''8''" by code_simp
lemma num_to_string_9: "num_to_string (Dec 9 0) = ''9''" by code_simp

lemma toLowerCase_nonempty: "toLowerCase (c # s) \<noteq> []"
  by (simp add: toLowerCase_def)

lemma keysMap_nonempty: "keysMap env cfg s = Some k \<Longrightarrow> k \<noteq> []"
  by (auto simp: keysMap_def length_defaultHeader num_to_string_8 num_to_string_9 priceKey_def
      marketCapKey_def toLowerCase_def split: if_splits)

lemma comparator_numeric:
  assumes key: "keysMap env cfg (num_to_string (rank cfg)) = Some k"
    and gt1: "num_lt (Dec 1 0) (rank cfg)"
  shows "comparator env cfg a b = Inr (num_sub (to_number (get b k)) (to_number (get a k)))"
  using key keysMap_nonempty[OF key] num_lt_not_eq[OF gt1] num_lt_zero_not_eq[OF gt1]
  by (simp add: comparator_def)

lemma num_sub_sign:
  "num_sign (num_sub (Dec m2 e2) (Dec m1 e1)) \<le> 0 \<longleftrightarrow> dec_value (Dec m2 e2) \<le> dec_value (Dec m1 e1)"
  by (simp add: num_sign_def aligned_le_iff[symmetric] sgn_if)

lemma num_ge_dec:
  "num_ge (Dec m1 e1) (Dec m2 e2) \<longleftrightarrow> dec_value (Dec m2 e2) \<le> dec_value (Dec m1 e1)"
  unfolding aligned_le_iff[symmetric] by (auto simp: num_ge_def aligned_def min.commute)

lemma comparator_consistent:
  assumes key: "keysMap env cfg (num_to_string (rank cfg)) = Some k"
    and gt1: "num_lt (Dec 1 0) (rank cfg)"
    and vals: "\<forall>r\<in>S. \<exists>m e. to_number (get r k) = Dec m e"
  shows "consistent_on (comparator env cfg) S"
    and "\<forall>a\<in>S. \<forall>b\<in>S. cmp_le (comparator env cfg) a b
           \<longleftrightarrow> num_ge (to_number (get a k)) (to_number (get b k))"
proof -
  note cmp = comparator_numeric[OF key gt1]
  have le: "cmp_le (comparator env cfg) a b
      \<longleftrightarrow> dec_value (to_number (get b k)) \<le> dec_value (to_number (get a k))"
    if "a \<in> S" "b \<in> S" for a b
  proof -
    from vals that obtain ma ea mb eb where
      "to_number (get a k) = Dec ma ea" "to_number (get b k) = Dec mb eb" by blast
    then show ?thesis by (simp add: cmp_le_def cmp num_sub_sign del: num_sub.simps)
  qed
  show "\<forall>a\<in>S. \<forall>b\<in>S. cmp_le (comparator env cfg) a b
           \<longleftrightarrow> num_ge (to_number (get a k)) (to_number (get b k))"
  proof (intro ballI)
    fix a b assume ab: "a \<in> S" "b \<in> S"
    from vals ab obtain ma ea mb eb where
      "to_number (get a k) = Dec ma ea" "to_number (get b k) = Dec mb eb" by blast
    then show "cmp_le (comparator env cfg) a b
           \<longleftrightarrow> num_ge (to_number (get a k)) (to_number (get b k))"
      using le[OF ab] by (simp add: num_ge_dec)
  qed
  have anti: "\<exists>v w. comparator env cfg a b = Inr v \<and> \<not> is_nan v \<and>
                  comparator env cfg b a = Inr w \<and> num_sign w = - num_sign v"
    if "a \<in> S" "b \<in> S" for a b
  proof -
    from vals that obtain ma ea mb eb where
      "to_number (get a k) = Dec ma ea" "to_number (get b k) = Dec mb eb" by blast
    then show ?thesis
      by (simp add: cmp is_nan_def num_sign_def aligned_def min.commute sgn_if)
  qed
  show "consistent_on (comparator env cfg) S"
    unfolding consistent_on_def
  proof (intro conjI ballI impI)
    fix a b assume "a \<in> S" "b \<in> S"
    then show "\<exists>v w. comparator env cfg a b = Inr v \<and> \<not> is_nan v \<and>
                  comparator env cfg b a = Inr w \<and> num_sign w = - num_sign v"
      by (rule anti)
  next
    fix a b c assume "a \<in> S" "b \<in> S" "c \<in> S"
      and "cmp_le (comparator env cfg) a b \<and> cmp_le (comparator env cfg) b c"
    then show "cmp_le (comparator env cfg) a c"
      using le by (meson order_trans)
  qed
qed

text \<open>
  Claim C8. For a rank above 1 that maps to a key \<open>k\<close>, and records whose value at \<open>k\<close>
  is a finite number, the sort stage returns the records in descending order of that
  value, on every host whose \<open>sort\<close> meets the contract of ECMAScript.
\<close>

theorem sort_stage_descending:
  assumes srt: "sort_contract srt"
    and key: "keysMap env cfg (num_to_string (rank cfg)) = Some k"
    and gt1: "num_lt (Dec 1 0) (rank cfg)"
    and vals: "\<forall>r\<in>set records. \<exists>m e. to_number (get r k) = Dec m e"
  shows "\<exists>out. sort_stage srt env cfg records = Inr out \<and> mset out = mset records \<and>
           sorted_wrt (\<lambda>a b. num_ge (to_number (get a k)) (to_number (get b k))) out"
proof -
  note c = comparator_consistent[OF key gt1 vals]
  from srt c(1) obtain out where
    out: "srt (comparator env cfg) records = Inr out" "mset out = mset records"
         "sorted_wrt (cmp_le (comparator env cfg)) out"
    unfolding sort_contract_def by blast
  from out(2) have "set out = set records" by (rule mset_eq_setD)
  with c(2) have "\<forall>a\<in>set out. \<forall>b\<in>set out. cmp_le (comparator env cfg) a b
           \<longrightarrow> num_ge (to_number (get a k)) (to_number (get b k))" by simp
  then have "sorted_wrt (\<lambda>a b. num_ge (to_number (get a k)) (to_number (get b k))) out"
    by (intro sorted_wrt_mono_rel[OF _ out(3)]) blast
  with out show ?thesis by (auto simp: sort_stage_def)
qed


text \<open>The example of the claim: market caps 5, 500, 50 sorted by rank 6.\<close>

theorem sort_stage_descending_witness:
  "sort_contract (insertion_sort :: (obj \<Rightarrow> obj \<Rightarrow> error + jsnum) \<Rightarrow> obj list \<Rightarrow> error + obj list) \<and>
   keysMap plain_env (default_config\<lparr>rank := Dec 6 0\<rparr>)
     (num_to_string (rank (default_config\<lparr>rank := Dec 6 0\<rparr>))) = Some ''market_cap_usd'' \<and>
   num_lt (Dec 1 0) (rank (default_config\<lparr>rank := Dec 6 0\<rparr>)) \<and>
   (\<exists>out. sort_stage insertion_sort plain_env (default_config\<lparr>rank := Dec 6 0\<rparr>)
            [coin ''A'' (JNum (Dec 5 0)), coin ''B'' (JNum (Dec 500 0)), coin ''C'' (JNum (Dec 50 0))]
          = Inr out \<and>
      mset out = mset [coin ''A'' (JNum (Dec 5 0)), coin ''B'' (JNum (Dec 500 0)),
                       coin ''C'' (JNum (Dec 50 0))] \<and>
      sorted_wrt (\<lambda>a b. num_ge (to_number (get a ''market_cap_usd''))
                                (to_number (get b ''market_cap_usd''))) out) \<and>
   map_sum id (map (\<lambda>r. get r ''market_cap_usd''))
     (sort_stage insertion_sort plain_env (default_config\<lparr>rank := Dec 6 0\<rparr>)
        [coin ''A'' (JNum (Dec 5 0)), coin ''B'' (JNum (Dec 500 0)), coin ''C'' (JNum (Dec 50 0))])
     = Inr [JNum (Dec 500 0), JNum (Dec 50 0), JNum (Dec 5 0)]"
proof -
  let ?cfg = "default_config\<lparr>rank := Dec 6 0\<rparr>"
  let ?rs = "[coin ''A'' (JNum (Dec 5 0)), coin ''B'' (JNum (Dec 500 0)), coin ''C'' (JNum (Dec 50 0))]"
  have key: "keysMap plain_env ?cfg (num_to_string (rank ?cfg)) = Some ''market_cap_usd''"
    by code_simp
  have gt1: "num_lt (Dec 1 0) (rank ?cfg)" by code_simp
  have vals: "\<forall>r\<in>set ?rs. \<exists>m e. to_number (get r ''market_cap_usd'') = Dec m e"
    by (simp add: coin_def get_def to_number_def)
  have ex: "map_sum id (map (\<lambda>r. get r ''market_cap_usd''))
     (sort_stage insertion_sort plain_env ?cfg ?rs)
     = Inr [JNum (Dec 500 0), JNum (Dec 50 0), JNum (Dec 5 0)]"
    by code_simp
  from sort_stage_descending[OF insertion_sort_contract key gt1 vals] key gt1 ex
    insertion_sort_contract
  show ?thesis by blast
qed

subsection \<open>The filter stage\<close>

lemma keeps_find:
  assumes "\<not> portfolio cfg" "find_list cfg \<noteq> []" "get r ''symbol'' = JStr s"
  shows "keeps cfg r = Inr (\<exists>keyword\<in>set (find_list cfg). toLowerCase s = toLowerCase keyword)"
  using assms by (simp add: keeps_def symbol_matches_def list_ex_iff)

lemma keeps_not_string:
  assumes "\<not> portfolio cfg" "find_list cfg \<noteq> []" "\<forall>s. get r ''symbol'' \<noteq> JStr s"
  shows "keeps cfg r = Inl TypeError"
  using assms by (cases "get r ''symbol''") (simp_all add: keeps_def symbol_matches_def)

lemma filter_stage_throws:
  assumes "\<not> portfolio cfg" and "find_list cfg \<noteq> []"
  shows "\<exists>r\<in>set records. \<forall>s. get r ''symbol'' \<noteq> JStr s \<Longrightarrow> filter_stage cfg records = Inl TypeError"
proof (induction records)
  case Nil
  then show ?case by simp
next
  case (Cons r rs)
  show ?case
  proof (cases "\<forall>s. get r ''symbol'' \<noteq> JStr s")
    case True
    from keeps_not_string[OF assms True] show ?thesis by simp
  next
    case False
    with Cons.prems have rest: "\<exists>r\<in>set rs. \<forall>s. get r ''symbol'' \<noteq> JStr s" by auto
    have one: "e = TypeError" for e :: error by (cases e) simp
    from Cons.IH[OF rest] show ?thesis by (simp add: one split: sum.splits)
  qed
qed

text \<open>
  Claim C9, as the code has it. With portfolio mode off and a non-empty find list: when
  every record has a string as its symbol, the filter stage keeps exactly the records
  whose symbol equals an entry of the list after both are lowercased, in their order;
  when some record has no string as its symbol, reading \<open>symbol.toLowerCase()\<close> throws
  a \<open>TypeError\<close> and the stage keeps no record at all.
\<close>

theorem filter_stage_find:
  assumes "\<not> portfolio cfg" and "find_list cfg \<noteq> []"
  shows "((\<forall>r\<in>set records. \<exists>s. get r ''symbol'' = JStr s) \<longrightarrow>
          filter_stage cfg records =
            Inr (filter (\<lambda>r. \<exists>keyword\<in>set (find_list cfg).
                     \<exists>s. get r ''symbol'' = JStr s \<and> toLowerCase s = toLowerCase keyword)
                   records)) \<and>
         ((\<exists>r\<in>set records. \<forall>s. get r ''symbol'' \<noteq> JStr s) \<longrightarrow>
          filter_stage cfg records = Inl TypeError)"
proof (intro conjI impI)
  assume "\<forall>r\<in>set records. \<exists>s. get r ''symbol'' = JStr s"
  then show "filter_stage cfg records =
            Inr (filter (\<lambda>r. \<exists>keyword\<in>set (find_list cfg).
                     \<exists>s. get r ''symbol'' = JStr s \<and> toLowerCase s = toLowerCase keyword)
                   records)"
  proof (induction records)
    case Nil
    show ?case by simp
  next
    case (Cons r rs)
    from Cons.prems obtain s where s: "get r ''symbol'' = JStr s" by auto
    from Cons.prems have "\<forall>r\<in>set rs. \<exists>s. get r ''symbol'' = JStr s" by simp
    from Cons.IH[OF this] keeps_find[OF assms s] s show ?case by simp
  qed
next
  assume "\<exists>r\<in>set records. \<forall>s. get r ''symbol'' \<noteq> JStr s"
  then show "filter_stage cfg records = Inl TypeError" by (rule filter_stage_throws[OF assms])
qed

text \<open>Claim C9 as stated fails on a sequence with a record that has no symbol: BTC
  matches the find list \<open>btc\<close>, yet the stage throws and keeps nothing.\<close>

theorem filter_stage_throws_without_symbol:
  "map_sum id (map (\<lambda>r. get r ''symbol''))
     (filter_stage (default_config\<lparr>find_list := list_arg ''btc''\<rparr>)
        [coin ''BTC'' JNull, [''name'' \<mapsto> JStr ''Ether'']]) = Inl TypeError"
  by code_simp

text \<open>Finding \<open>btc,Eth\<close> among BTC, xrp and eTH keeps BTC and eTH; a record without a
  symbol makes the stage throw; the entry a with grave finds the symbol A with grave.\<close>

theorem filter_stage_find_witness:
  "filter_stage (default_config\<lparr>find_list := list_arg ''btc,Eth''\<rparr>)
     [coin ''BTC'' JNull, coin ''xrp'' JNull, coin ''eTH'' JNull] =
   Inr (filter (\<lambda>r. \<exists>keyword\<in>set (find_list (default_config\<lparr>find_list := list_arg ''btc,Eth''\<rparr>)).
                     \<exists>s. get r ''symbol'' = JStr s \<and> toLowerCase s = toLowerCase keyword)
            [coin ''BTC'' JNull, coin ''xrp'' JNull, coin ''eTH'' JNull]) \<and>
   map_sum id (map (\<lambda>r. get r ''symbol''))
     (filter_stage (default_config\<lparr>find_list := list_arg ''btc,Eth''\<rparr>)
        [coin ''BTC'' JNull, coin ''xrp'' JNull, coin ''eTH'' JNull]) = Inr [JStr ''BTC'', JStr ''eTH''] \<and>
   filter_stage (default_config\<lparr>find_list := list_arg ''btc''\<rparr>)
        [coin ''BTC'' JNull, [''name'' \<mapsto> JStr ''Ether'']] = Inl TypeError \<and>
   map_sum id (map (\<lambda>r. get r ''symbol''))
     (filter_stage (default_config\<lparr>find_list := [[CHR 0xE0], ''btc'']\<rparr>)
        [coin [CHR 0xC0] JNull, coin ''Btc'' JNull, coin ''A'' JNull])
     = Inr [JStr [CHR 0xC0], JStr ''Btc'']"
proof -
  let ?cfg = "default_config\<lparr>find_list := list_arg ''btc,Eth''\<rparr>"
  let ?rs = "[coin ''BTC'' JNull, coin ''xrp'' JNull, coin ''eTH'' JNull]"
  let ?cfg2 = "default_config\<lparr>find_list := list_arg ''btc''\<rparr>"
  let ?rs2 = "[coin ''BTC'' JNull, [''name'' \<mapsto> JStr ''Ether'']] :: obj list"
  have h1: "\<not> portfolio ?cfg" by (simp add: default_config_def)
  have h2: "find_list ?cfg \<noteq> []" by (simp add: default_config_def list_arg_def)
  have h3: "\<forall>r\<in>set ?rs. \<exists>s. get r ''symbol'' = JStr s" by (simp add: coin_def get_def)
  have g1: "\<not> portfolio ?cfg2" by (simp add: default_config_def)
  have g2: "find_list ?cfg2 \<noteq> []" by (simp add: default_config_def list_arg_def)
  have g3: "\<exists>r\<in>set ?rs2. \<forall>s. get r ''symbol'' \<noteq> JStr s" by (simp add: coin_def get_def)
  have ex: "map_sum id (map (\<lambda>r. get r ''symbol'')) (filter_stage ?cfg ?rs) = Inr [JStr ''BTC'', JStr ''eTH'']"
    by code_simp
  have ex2: "map_sum id (map (\<lambda>r. get r ''symbol''))
     (filter_stage (default_config\<lparr>find_list := [[CHR 0xE0], ''btc'']\<rparr>)
        [coin [CHR 0xC0] JNull, coin ''Btc'' JNull, coin ''A'' JNull])
     = Inr [JStr [CHR 0xC0], JStr ''Btc'']"
    by code_simp
  from filter_stage_find[OF h1 h2, of ?rs] h3 filter_stage_find[OF g1 g2, of ?rs2] g3 ex ex2
  show ?thesis by blast
qed

subsection \<open>The display rows\<close>

lemma editedRecord_displayable:
  assumes "editedRecord cfg r = Inr e"
  shows "\<exists>shown. defaultValues env cfg e = Inr shown"
proof (cases "portfolio cfg")
  case False
  then show ?thesis by (simp add: defaultValues_def Let_def)
next
  case True
  with assms obtain x where "get e ''portfolio_estimated_value'' = JNum x"
    by (auto simp: editedRecord_def Let_def get_def split: jsval.splits)
  with True show ?thesis by (simp add: defaultValues_def Let_def)
qed

text \<open>
  Claim C10. A display row has as many cells as the header: both are the sorted column
  selection mapped cell by cell. Every record the normalization stage returns gets a row.
\<close>

theorem row_length_header:
  "(\<forall>row. values_row env cfg x = Inr row \<longrightarrow> length row = length (header env cfg)) \<and>
   (\<forall>r e. editedRecord cfg r = Inr e \<longrightarrow>
      (\<exists>row. values_row env cfg e = Inr row \<and> length row = length (header env cfg)))"
proof (intro conjI allI impI)
  fix row assume "values_row env cfg x = Inr row"
  then show "length row = length (header env cfg)"
    by (auto simp: values_row_def header_def split: sum.splits)
next
  fix r e assume "editedRecord cfg r = Inr e"
  from editedRecord_displayable[OF this] obtain shown where "defaultValues env cfg e = Inr shown"
    by blast
  then show "\<exists>row. values_row env cfg e = Inr row \<and> length row = length (header env cfg)"
    by (simp add: values_row_def header_def)
qed

text \<open>With \<open>--specific 2,0\<close> the header and the row of a record have two cells.\<close>

theorem row_length_header_witness:
  "(\<exists>row. values_row plain_env (default_config\<lparr>column := list_arg ''2,0''\<rparr>)
            (coin ''BTC'' (JNum (Dec 5 0))) = Inr row \<and>
          length row = length (header plain_env (default_config\<lparr>column := list_arg ''2,0''\<rparr>))) \<and>
   length (header plain_env (default_config\<lparr>column := list_arg ''2,0''\<rparr>)) = 2"
proof -
  let ?cfg = "default_config\<lparr>column := list_arg ''2,0''\<rparr>"
  have "map_sum id length (values_row plain_env ?cfg (coin ''BTC'' (JNum (Dec 5 0)))) = Inr 2"
    by code_simp
  then obtain row where row: "values_row plain_env ?cfg (coin ''BTC'' (JNum (Dec 5 0))) = Inr row"
    by (cases "values_row plain_env ?cfg (coin ''BTC'' (JNum (Dec 5 0)))") auto
  have len: "length (header plain_env ?cfg) = 2" by code_simp
  from row_length_header[of plain_env ?cfg "coin ''BTC'' (JNum (Dec 5 0))"] row len
  show ?thesis by blast
qed

subsection \<open>The keys of a normalized record\<close>

lemma toLowerCase_append: "toLowerCase (a @ b) = toLowerCase a @ toLowerCase b"
  by (simp add: toLowerCase_def)

lemma lower_upper_char: "lower_char (upper_char c) = lower_char c"
  by (simp add: lower_char_def upper_char_def upper_letters_def lower_letters_def
      split: if_splits)

lemma upper_upper_char: "upper_char (upper_char c) = upper_char c"
  by (simp add: upper_char_def upper_letters_def lower_letters_def split: if_splits)

lemma toLowerCase_toUpperCase: "toLowerCase (toUpperCase s) = toLowerCase s"
  by (simp add: toLowerCase_def toUpperCase_def lower_upper_char)

lemma toUpperCase_idem: "toUpperCase (toUpperCase s) = toUpperCase s"
  by (simp add: toUpperCase_def upper_upper_char)

lemma toLowerCase_prefixes:
  "toLowerCase ''price_'' = ''price_''"
  "toLowerCase ''market_cap_'' = ''market_cap_''"
  "toLowerCase ''24h_volume_'' = ''24h_volume_''"
  "toLowerCase ''USD'' = ''usd''"
  by code_simp+

lemma priceKey_eq: "priceKey cfg = ''price_'' @ toLowerCase (program_convert cfg)"
  by (simp only: priceKey_def convert_def toLowerCase_append toLowerCase_toUpperCase
      toLowerCase_prefixes)

lemma marketCapKey_eq:
  "marketCapKey cfg = ''market_cap_'' @ toLowerCase (marketcapConvert cfg)"
  by (simp only: marketCapKey_def toLowerCase_append toLowerCase_prefixes)

lemma volume24hKey_eq:
  "volume24hKey cfg = ''24h_volume_'' @ toLowerCase (marketcapConvert cfg)"
  by (simp only: volume24hKey_def toLowerCase_append toLowerCase_prefixes)

lemma marketcapConvert_lower:
  "toLowerCase (marketcapConvert cfg) =
     (if toUpperCase (program_convert cfg) = ''BTC'' then ''usd'' else toLowerCase (program_convert cfg))"
  by (simp add: marketcapConvert_def convert_def toLowerCase_toUpperCase toLowerCase_prefixes)

lemma validateConvertCurrency_Returned:
  "validateConvertCurrency v = Returned c \<Longrightarrow> c = toUpperCase v \<and> c \<in> set availableCurrencies"
  by (auto simp: validateConvertCurrency_def split: if_splits)

lemma edited_keys:
  assumes "editedRecord cfg r = Inr e"
  shows "e (priceKey cfg) \<noteq> None \<and> e (marketCapKey cfg) \<noteq> None \<and> e (volume24hKey cfg) \<noteq> None"
  using assms
  by (auto simp: editedRecord_def Let_def priceKey_eq marketCapKey_eq volume24hKey_eq
      split: if_splits jsval.splits)

text \<open>
  Claim C3, as the code has it. For a currency \<open>v\<close> the validator accepts, the price key
  carries the lowercased currency. The market cap key and the volume key carry it too,
  except for BTC, where the code asks for them in USD and they end in \<open>usd\<close>. A
  normalized record has the three keys.
\<close>

theorem currency_keys:
  assumes "validateConvertCurrency v = Returned c" and "program_convert cfg = c"
  shows "priceKey cfg = ''price_'' @ toLowerCase v \<and>
         (c \<noteq> ''BTC'' \<longrightarrow> marketCapKey cfg = ''market_cap_'' @ toLowerCase v \<and>
                         volume24hKey cfg = ''24h_volume_'' @ toLowerCase v) \<and>
         (c = ''BTC'' \<longrightarrow> marketCapKey cfg = ''market_cap_usd'' \<and>
                         volume24hKey cfg = ''24h_volume_usd'') \<and>
         (\<forall>r e. editedRecord cfg r = Inr e \<longrightarrow>
            e (priceKey cfg) \<noteq> None \<and> e (marketCapKey cfg) \<noteq> None \<and> e (volume24hKey cfg) \<noteq> None)"
proof -
  from validateConvertCurrency_Returned[OF assms(1)] have c: "c = toUpperCase v" by simp
  have up: "toUpperCase (program_convert cfg) = c"
    using assms(2) c by (simp add: toUpperCase_idem)
  have low: "toLowerCase (program_convert cfg) = toLowerCase v"
    using assms(2) c by (simp add: toLowerCase_toUpperCase)
  have keys: "priceKey cfg = ''price_'' @ toLowerCase v \<and>
         (c \<noteq> ''BTC'' \<longrightarrow> marketCapKey cfg = ''market_cap_'' @ toLowerCase v \<and>
                         volume24hKey cfg = ''24h_volume_'' @ toLowerCase v) \<and>
         (c = ''BTC'' \<longrightarrow> marketCapKey cfg = ''market_cap_usd'' \<and>
                         volume24hKey cfg = ''24h_volume_usd'')"
    by (simp add: priceKey_eq marketCapKey_eq volume24hKey_eq marketcapConvert_lower up low)
  with edited_keys[of cfg] show ?thesis by blast
qed

text \<open>Claim C3 as stated fails for BTC, a currency of the allow-list: the market cap
  and volume keys end in \<open>usd\<close>, not in \<open>btc\<close>.\<close>

theorem currency_keys_btc:
  "validateConvertCurrency ''btc'' = Returned ''BTC'' \<and>
   priceKey (default_config\<lparr>program_convert := ''BTC''\<rparr>) = ''price_btc'' \<and>
   marketCapKey (default_config\<lparr>program_convert := ''BTC''\<rparr>) = ''market_cap_usd'' \<and>
   volume24hKey (default_config\<lparr>program_convert := ''BTC''\<rparr>) = ''24h_volume_usd''"
  by code_simp

text \<open>For EUR the three keys end in \<open>eur\<close>.\<close>

theorem currency_keys_witness:
  "priceKey (default_config\<lparr>program_convert := ''EUR''\<rparr>) = ''price_eur'' \<and>
   marketCapKey (default_config\<lparr>program_convert := ''EUR''\<rparr>) = ''market_cap_eur'' \<and>
   volume24hKey (default_config\<lparr>program_convert := ''EUR''\<rparr>) = ''24h_volume_eur''"
proof -
  have v: "validateConvertCurrency ''eur'' = Returned ''EUR''" by code_simp
  have l: "toLowerCase ''eur'' = ''eur''" by code_simp
  from currency_keys[OF v, of "default_config\<lparr>program_convert := ''EUR''\<rparr>"] l
  show ?thesis by simp
qed

subsection \<open>The normalization stage\<close>

lemma falsy_raw_values:
  "\<not> truthy (JNum (Dec 0 0))" "\<not> truthy JNull" "\<not> truthy (JStr [])" "\<not> truthy JUndefined"
  by (simp_all add: truthy_def)

lemma get_missing: "r k = None \<Longrightarrow> get r k = JUndefined"
  by (simp add: get_def)

lemma numeric_falsy: "\<not> truthy x \<Longrightarrow> numeric x = x"
  by (simp add: numeric_def js_and_def)

lemma edited_numeric:
  assumes "editedRecord cfg r = Inr e" and "k \<in> set (numeric_fields cfg)"
  shows "get e k = numeric (get r k)"
  using assms
  by (auto simp: editedRecord_def Let_def get_def numeric_fields_def priceKey_eq marketCapKey_eq
      volume24hKey_eq split: if_splits jsval.splits)

lemma getColoredChangeValueText_falsy:
  "\<not> truthy v \<Longrightarrow> getColoredChangeValueText env v = JStr ''NA''"
  by (simp add: getColoredChangeValueText_def js_or_def js_and_def Let_def)

lemma defaultValues_changes:
  assumes "defaultValues env cfg e = Inr shown"
  shows "shown ! 3 = getColoredChangeValueText env (get e ''percent_change_1h'') \<and>
         shown ! 4 = getColoredChangeValueText env (get e ''percent_change_24h'') \<and>
         shown ! 5 = getColoredChangeValueText env (get e ''percent_change_7d'')"
  using assms
  by (auto simp: defaultValues_def Let_def split: if_splits jsval.splits)

text \<open>
  Claim C2, as the code has it. A numeric-bearing field whose raw value is falsy (0,
  \<open>null\<close>, the empty string, or missing, which reads as \<open>undefined\<close>) keeps that raw
  value: \<open>x && +x\<close> returns \<open>x\<close> itself, so 0 stays the number 0. The percent-change
  column of such a field renders as \<open>NA\<close>.
\<close>

theorem falsy_field_kept:
  assumes "editedRecord cfg r = Inr e" and "k \<in> set (numeric_fields cfg)"
    and "\<not> truthy (get r k)"
  shows "get e k = get r k \<and>
         (\<forall>shown. defaultValues env cfg e = Inr shown \<longrightarrow>
            (k = ''percent_change_1h'' \<longrightarrow> shown ! 3 = JStr ''NA'') \<and>
            (k = ''percent_change_24h'' \<longrightarrow> shown ! 4 = JStr ''NA'') \<and>
            (k = ''percent_change_7d'' \<longrightarrow> shown ! 5 = JStr ''NA''))"
proof -
  have same: "get e k = get r k"
    using edited_numeric[OF assms(1,2)] numeric_falsy[OF assms(3)] by simp
  then have "\<not> truthy (get e k)" using assms(3) by simp
  then show ?thesis
    using same defaultValues_changes[of env cfg e] getColoredChangeValueText_falsy[of "get e k" env]
    by auto
qed

text \<open>Claim C2 as stated fails for the raw value 0: the normalized field is the number
  zero, it is not absent.\<close>

theorem zero_stays_zero:
  "map_sum id (\<lambda>e. get e ''percent_change_24h'')
     (editedRecord default_config
        [''symbol'' \<mapsto> JStr ''BTC'', ''percent_change_24h'' \<mapsto> JNum (Dec 0 0)])
   = Inr (JNum (Dec 0 0))"
  by code_simp

text \<open>A record with \<open>percent_change_24h: 0\<close> keeps the 0 and renders \<open>NA\<close> in that
  column.\<close>

theorem falsy_field_kept_witness:
  "\<exists>e shown.
     editedRecord default_config
       [''symbol'' \<mapsto> JStr ''BTC'', ''percent_change_24h'' \<mapsto> JNum (Dec 0 0)] = Inr e \<and>
     get e ''percent_change_24h'' = JNum (Dec 0 0) \<and>
     defaultValues plain_env default_config e = Inr shown \<and>
     shown ! 4 = JStr ''NA''"
proof -
  let ?r = "[''symbol'' \<mapsto> JStr ''BTC'', ''percent_change_24h'' \<mapsto> JNum (Dec 0 0)] :: obj"
  obtain e where e: "editedRecord default_config ?r = Inr e"
    by (simp add: editedRecord_def default_config_def Let_def)
  from editedRecord_displayable[OF e] obtain shown where
    shown: "defaultValues plain_env default_config e = Inr shown" by blast
  have k: "''percent_change_24h'' \<in> set (numeric_fields default_config)"
    by (simp add: numeric_fields_def)
  have raw: "get ?r ''percent_change_24h'' = JNum (Dec 0 0)" by (simp add: get_def)
  have f: "\<not> truthy (get ?r ''percent_change_24h'')" by (simp add: raw truthy_def)
  from falsy_field_kept[OF e k f, of plain_env] e shown raw show ?thesis by auto
qed

subsection \<open>The sort stage without a sort key\<close>

text \<open>
  With rank 0, or a rank that maps to no key, the comparator answers \<open>-1\<close> for every
  pair, also for an element and itself. It is not a consistent comparator, so the
  language leaves the order of the result to the host: the insertion sort keeps the
  source order, the run-detecting sort reverses it.
\<close>

lemma comparator_noop:
  assumes "num_eq (rank cfg) (Dec 0 0) \<or> keysMap env cfg (num_to_string (rank cfg)) = None"
  shows "comparator env cfg a b = Inr (Dec (- 1) 0)"
  using assms by (auto simp: comparator_def split: option.splits)

lemma descending_run_negative:
  assumes "\<And>a b. cmp a b = Inr (Dec (- 1) 0)"
  shows "descending_run cmp xs = Inr True"
proof (induction xs rule: induct_list012)
  case (3 x y zs)
  then show ?case by (simp add: assms num_sign_def)
qed simp_all

lemma run_sort_negative:
  assumes "\<And>a b. cmp a b = Inr (Dec (- 1) 0)"
  shows "run_sort cmp xs = Inr (rev xs)"
proof (cases "length xs < 2")
  case True
  then have "xs = [] \<or> (\<exists>x. xs = [x])"
    by (cases xs) (auto simp: less_Suc_eq_le numeral_2_eq_2)
  then show ?thesis by (auto simp: run_sort_def)
next
  case False
  then show ?thesis by (simp add: run_sort_def descending_run_negative[OF assms])
qed

lemma insertion_loop_negative:
  assumes "\<And>a b. cmp a b = Inr (Dec (- 1) 0)"
  shows "insertion_loop cmp acc xs = Inr (rev acc @ xs)"
proof (induction xs arbitrary: acc)
  case (Cons x xs)
  have "insert_left cmp x acc = Inr (x # acc)"
    by (cases acc) (simp_all add: assms num_sign_def)
  with Cons show ?case by simp
qed simp

lemma sort_stage_noop_run_sort:
  assumes "num_eq (rank cfg) (Dec 0 0) \<or> keysMap env cfg (num_to_string (rank cfg)) = None"
  shows "sort_stage run_sort env cfg records = Inr (rev records)"
  unfolding sort_stage_def by (rule run_sort_negative) (rule comparator_noop[OF assms])

lemma sort_stage_noop_insertion_sort:
  assumes "num_eq (rank cfg) (Dec 0 0) \<or> keysMap env cfg (num_to_string (rank cfg)) = None"
  shows "sort_stage insertion_sort env cfg records = Inr records"
  unfolding sort_stage_def insertion_sort_def
  using insertion_loop_negative[of "comparator env cfg" "[]" records] comparator_noop[OF assms]
  by simp

lemma comparator_noop_inconsistent:
  assumes "num_eq (rank cfg) (Dec 0 0) \<or> keysMap env cfg (num_to_string (rank cfg)) = None"
    and "records \<noteq> []"
  shows "\<not> consistent_on (comparator env cfg) (set records)"
proof
  assume c: "consistent_on (comparator env cfg) (set records)"
  from assms(2) obtain a where a: "a \<in> set records" by (cases records) auto
  from c a obtain v w where "comparator env cfg a a = Inr v" "comparator env cfg a a = Inr w"
    "num_sign w = - num_sign v"
    unfolding consistent_on_def by blast
  with comparator_noop[OF assms(1), of a a] show False by (simp add: num_sign_def)
qed

text \<open>
  Claim C6. The claim: with rank 0 the sort stage leaves the order unchanged. With the
  default options and the run-detecting sort, two records come out in reverse order.
\<close>

theorem sort_stage_default_rank_reverses:
  "map_sum id (map (\<lambda>r. get r ''symbol''))
     (sort_stage run_sort plain_env default_config
        [coin ''BTC'' (JNum (Dec 500 0)), coin ''ETH'' (JNum (Dec 50 0))])
   = Inr [JStr ''ETH'', JStr ''BTC'']"
  by code_simp

subsection \<open>The column selection\<close>

text \<open>
  Claim C5. The claim: every index outside \<open>[0, header.length)\<close>, negative ones included,
  is dropped. The filter of the code has no lower bound: with \<open>--specific 0,-1\<close> the
  selection is \<open>[-1, 0]\<close>, the header starts with \<open>undefined\<close>, and every row reads
  position \<open>-1\<close> of the display row.
\<close>

theorem negative_index_kept:
  "sortedColumns plain_env (default_config\<lparr>column := list_arg ''0,-1''\<rparr>) = [Dec (- 1) 0, Dec 0 0] \<and>
   header plain_env (default_config\<lparr>column := list_arg ''0,-1''\<rparr>) = [JUndefined, JStr ''Rank''] \<and>
   values_row plain_env (default_config\<lparr>column := list_arg ''0,-1''\<rparr>)
     [''rank'' \<mapsto> JNum (Dec 1 0), ''symbol'' \<mapsto> JStr ''BTC'']
   = Inr [JUndefined, JNum (Dec 1 0)]"
  by code_simp

text \<open>Without a selection the columns are all positions of the header, in order.\<close>

lemma sort_default_7:
  "sort_default (map (\<lambda>i. Dec (int i) 0) [0..<7]) = map (\<lambda>i. Dec (int i) 0) [0..<7]"
  by code_simp

lemma sort_default_9:
  "sort_default (map (\<lambda>i. Dec (int i) 0) [0..<9]) = map (\<lambda>i. Dec (int i) 0) [0..<9]"
  by code_simp

lemma sortedColumns_default:
  "column cfg = [] \<Longrightarrow> sortedColumns env cfg = defaultColumns env cfg"
  by (simp add: sortedColumns_def columns_def defaultColumns_def length_defaultHeader
      sort_default_7 sort_default_9)

lemma length_defaultValues:
  "defaultValues env cfg r = Inr shown \<Longrightarrow> length shown = length (defaultHeader env cfg)"
  by (auto simp: defaultValues_def Let_def length_defaultHeader split: if_splits jsval.splits)

lemma array_get_nat: "i < length xs \<Longrightarrow> array_get xs (Dec (int i) 0) = xs ! i"
  by (simp add: array_get_def num_to_index_def)

lemma project_all: "map (\<lambda>index. array_get xs index) (map (\<lambda>i. Dec (int i) 0) [0..<length xs]) = xs"
proof -
  have "map (\<lambda>i. array_get xs (Dec (int i) 0)) [0..<length xs] = map ((!) xs) [0..<length xs]"
    by (rule map_cong) (simp_all add: array_get_nat)
  then show ?thesis by (simp add: map_nth comp_def)
qed

lemma values_row_default:
  assumes "column cfg = []" and "defaultValues env cfg r = Inr shown"
  shows "values_row env cfg r = Inr shown"
  using assms project_all[of shown] length_defaultValues[OF assms(2)]
  by (simp add: values_row_def sortedColumns_default defaultColumns_def)

lemma columns_all_invalid:
  assumes "column cfg \<noteq> []"
    and "\<forall>s\<in>set (column cfg). isNaN (JStr s) \<or>
           \<not> num_lt (to_number (JStr s)) (Dec (int (length (defaultHeader env cfg))) 0)"
  shows "sortedColumns env cfg = []"
proof -
  have "filter (\<lambda>index. \<not> isNaN (JNum index)
                          \<and> num_lt index (Dec (int (length (defaultHeader env cfg))) 0))
             (map (\<lambda>index. to_number (JStr index)) (column cfg)) = []"
    using assms(2) by (auto simp: filter_empty_conv isNaN_def to_number_def)
  with assms(1) show ?thesis by (simp add: sortedColumns_def columns_def sort_default_def)
qed

text \<open>
  Claim C4, as the code has it. The default columns stand in only when the list of
  \<open>--specific\<close> is empty: then the projection is the identity. When the list has entries
  and the filter rejects them all (each is not a number, or is not below the length of
  the header), the selection is empty: the header and every row have no cells.
\<close>

theorem column_selection:
  "(column cfg = [] \<longrightarrow>
      sortedColumns env cfg = defaultColumns env cfg \<and>
      header env cfg = map JStr (defaultHeader env cfg) \<and>
      (\<forall>r shown. defaultValues env cfg r = Inr shown \<longrightarrow> values_row env cfg r = Inr shown)) \<and>
   (column cfg \<noteq> [] \<and>
    (\<forall>s\<in>set (column cfg). isNaN (JStr s) \<or>
        \<not> num_lt (to_number (JStr s)) (Dec (int (length (defaultHeader env cfg))) 0)) \<longrightarrow>
      sortedColumns env cfg = [] \<and>
      header env cfg = [] \<and>
      (\<forall>r shown. defaultValues env cfg r = Inr shown \<longrightarrow> values_row env cfg r = Inr []))"
proof (intro conjI impI allI)
  assume c: "column cfg = []"
  show "sortedColumns env cfg = defaultColumns env cfg" by (rule sortedColumns_default[OF c])
  show "header env cfg = map JStr (defaultHeader env cfg)"
    using project_all[of "map JStr (defaultHeader env cfg)"]
    by (simp add: header_def sortedColumns_default[OF c] defaultColumns_def)
  fix r shown assume "defaultValues env cfg r = Inr shown"
  then show "values_row env cfg r = Inr shown" by (rule values_row_default[OF c])
next
  assume a: "column cfg \<noteq> [] \<and>
    (\<forall>s\<in>set (column cfg). isNaN (JStr s) \<or>
        \<not> num_lt (to_number (JStr s)) (Dec (int (length (defaultHeader env cfg))) 0))"
  then have e: "sortedColumns env cfg = []" using columns_all_invalid by blast
  then show "sortedColumns env cfg = []" .
  from e show "header env cfg = []" by (simp add: header_def)
  fix r shown assume "defaultValues env cfg r = Inr shown"
  with e show "values_row env cfg r = Inr []" by (simp add: values_row_def)
qed

text \<open>Claim C4 as stated fails for \<open>--specific abc,99\<close>: the row is empty, where the
  row without \<open>--specific\<close> has its seven cells.\<close>

theorem all_invalid_selects_nothing:
  "sortedColumns plain_env (default_config\<lparr>column := list_arg ''abc,99''\<rparr>) = [] \<and>
   header plain_env (default_config\<lparr>column := list_arg ''abc,99''\<rparr>) = [] \<and>
   values_row plain_env (default_config\<lparr>column := list_arg ''abc,99''\<rparr>)
     [''rank'' \<mapsto> JNum (Dec 1 0), ''symbol'' \<mapsto> JStr ''BTC''] = Inr [] \<and>
   values_row plain_env default_config
     [''rank'' \<mapsto> JNum (Dec 1 0), ''symbol'' \<mapsto> JStr ''BTC'']
     = Inr [JNum (Dec 1 0), JStr ''BTC'', JUndefined, JStr ''NA'', JStr ''NA'', JStr ''NA'', JStr ''NA'']"
  by code_simp

text \<open>The default options give the identity; \<open>--specific abc,99\<close> selects nothing.\<close>

theorem column_selection_witness:
  "sortedColumns plain_env default_config = defaultColumns plain_env default_config \<and>
   header plain_env default_config = map JStr (defaultHeader plain_env default_config) \<and>
   sortedColumns plain_env (default_config\<lparr>column := list_arg ''abc,99''\<rparr>) = [] \<and>
   header plain_env (default_config\<lparr>column := list_arg ''abc,99''\<rparr>) = []"
proof -
  let ?cfg = "default_config\<lparr>column := list_arg ''abc,99''\<rparr>"
  have c0: "column default_config = []" by (simp add: default_config_def)
  have c1: "column ?cfg \<noteq> []" by code_simp
  have c2: "list_all (\<lambda>s. isNaN (JStr s) \<or>
        \<not> num_lt (to_number (JStr s)) (Dec (int (length (defaultHeader plain_env ?cfg))) 0))
      (column ?cfg)" by code_simp
  from column_selection[of default_config plain_env] c0
    column_selection[of ?cfg plain_env] c1 c2[unfolded list_all_iff]
  show ?thesis by blast
qed

text \<open>
  The default sort is the library's insertion sort on the code units of the string
  forms. A position of the header has a one-digit string form, so among positions the
  string order is the numeric order.
\<close>

lemma str_lt_less: "str_lt s t \<longleftrightarrow> (map of_char s :: nat list) < map of_char t"
  by (induction s t rule: str_lt.induct) auto

lemma insert_default_insort: "insert_default x ys = insort_key string_key x ys"
  by (induction ys) (auto simp: str_lt_less string_key_def)

lemma sort_default_sort_key: "sort_default xs = sort_key string_key xs"
proof -
  have "insert_default = insort_key string_key"
    by (intro ext) (rule insert_default_insort)
  then show ?thesis by (simp add: sort_default_def sort_key_def)
qed

lemma digits_small: "n < 10 \<Longrightarrow> digits n = [digit_char n]"
  by (simp add: digits.simps)

lemma digits_times_10: "0 < n \<Longrightarrow> digits (n * 10) = digits n @ [CHR ''0'']"
  by (subst digits.simps) (simp add: digit_char_def)

lemma digits_shift:
  assumes "0 < n" "n < 10"
  shows "digits (n * 10 ^ j) = digit_char n # replicate j (CHR ''0'')"
proof (induction j)
  case 0
  show ?case using assms by (simp add: digits_small)
next
  case (Suc j)
  have "n * 10 ^ Suc j = (n * 10 ^ j) * 10" by simp
  then have "digits (n * 10 ^ Suc j) = digits ((n * 10 ^ j) * 10)" by (rule arg_cong)
  also have "\<dots> = digits (n * 10 ^ j) @ [CHR ''0'']" using assms by (intro digits_times_10) simp
  finally show ?case using Suc by (simp add: replicate_append_same)
qed

lemma digit_char_not_0: "0 < n \<Longrightarrow> n < 10 \<Longrightarrow> digit_char n \<noteq> CHR ''0''"
proof -
  assume "0 < n" "n < 10"
  then have "n \<in> {1,2,3,4,5,6,7,8,9}" by auto
  then show ?thesis by (auto simp: digit_char_def)
qed

lemma pos_to_string_shift:
  assumes "0 < n" "n < 10"
  shows "pos_to_string (n * 10 ^ j) (- int j) = [digit_char n]"
proof -
  have ds0: "digits (n * 10 ^ j) = digit_char n # replicate j (CHR ''0'')"
    by (rule digits_shift[OF assms])
  have "rev (digit_char n # replicate j (CHR ''0'')) = replicate j (CHR ''0'') @ [digit_char n]"
    by simp
  then have ds: "rev (dropWhile (\<lambda>c. c = CHR ''0'') (rev (digit_char n # replicate j (CHR ''0''))))
      = [digit_char n]"
  proof -
    have "dropWhile (\<lambda>c. c = CHR ''0'') (replicate j (CHR ''0'') @ [digit_char n])
        = dropWhile (\<lambda>c. c = CHR ''0'') [digit_char n]"
      by (rule dropWhile_append2) simp
    then show ?thesis using digit_char_not_0[OF assms] by simp
  qed
  show ?thesis
    unfolding pos_to_string_def ds0 Let_def ds by simp
qed

lemma num_to_string_index:
  assumes "num_to_index i = Some n" and "n < 10"
  shows "num_to_string i = [digit_char n]"
proof (cases i)
  case (Dec m e)
  with assms(1) have m0: "0 \<le> m" by (auto simp: num_to_index_def split: if_splits)
  show ?thesis
  proof (cases "m = 0")
    case True
    with Dec assms(1) have "n = 0" by (auto simp: num_to_index_def split: if_splits)
    with True Dec show ?thesis by (simp add: num_to_string_def digit_char_def)
  next
    case False
    with m0 have mpos: "0 < m" by simp
    show ?thesis
    proof (cases "0 \<le> e")
      case True
      with Dec assms(1) mpos have n: "n = nat (m * 10 ^ nat e)"
        by (auto simp: num_to_index_def split: if_splits)
      have "(10::int) ^ nat e \<le> m * 10 ^ nat e" using mpos by simp
      with n assms(2) have "(10::int) ^ nat e < 10" by linarith
      then have "nat e = 0"
      proof (cases "nat e")
        case (Suc k)
        assume "(10::int) ^ nat e < 10"
        with Suc have "(10::int) * 10 ^ k < 10" by simp
        moreover have "(1::int) \<le> 10 ^ k" by simp
        ultimately show ?thesis by linarith
      qed simp
      with True have e0: "e = 0" by simp
      with n mpos have nm: "m = int n" "0 < n" by simp_all
      from pos_to_string_shift[OF nm(2) assms(2), of 0] have "pos_to_string n 0 = [digit_char n]"
        by simp
      with Dec e0 nm mpos show ?thesis by (simp add: num_to_string_def)
    next
      case False
      define j where "j = nat (- e)"
      from False have e: "e = - int j" by (simp add: j_def)
      from Dec assms(1) mpos False have md: "m mod 10 ^ j = 0" and n: "n = nat (m div 10 ^ j)"
        by (auto simp: num_to_index_def j_def split: if_splits)
      define q where "q = m div 10 ^ j"
      from md have mq: "m = q * 10 ^ j" by (simp add: q_def mod_eq_0_iff_dvd)
      have qpos: "0 < q"
      proof (rule ccontr)
        assume "\<not> 0 < q"
        then have "q * 10 ^ j \<le> 0" by (simp add: mult_le_0_iff)
        with mq mpos show False by simp
      qed
      have nq: "n = nat q" using n by (simp only: q_def)
      have "nat (q * 10 ^ j) = nat q * nat (10 ^ j)" using qpos by (simp add: nat_mult_distrib)
      also have "nat ((10::int) ^ j) = 10 ^ j" by (simp add: nat_power_eq)
      finally have "nat (q * 10 ^ j) = n * 10 ^ j" by (simp only: nq)
      then have m: "nat m = n * 10 ^ j" by (simp only: mq[symmetric])
      have npos: "0 < n" using qpos by (simp add: nq)
      from pos_to_string_shift[OF npos assms(2), of j] m
      have "pos_to_string (nat m) e = [digit_char n]" by (simp add: e)
      with Dec mpos show ?thesis by (simp add: num_to_string_def)
    qed
  qed
qed (use assms in \<open>auto simp: num_to_index_def\<close>)

lemma of_char_digit_char: "n < 10 \<Longrightarrow> (of_char (digit_char n) :: nat) = 48 + n"
proof -
  assume "n < 10"
  then have "n \<in> {0,1,2,3,4,5,6,7,8,9}" by auto
  then show ?thesis by (auto simp: digit_char_def)
qed

lemma string_key_index:
  "num_to_index i = Some n \<Longrightarrow> n < 10 \<Longrightarrow> string_key i = [48 + n]"
  by (simp add: string_key_def num_to_string_index of_char_digit_char)

lemma set_map_filter_eq: "set (List.map_filter f xs) = {y. \<exists>x\<in>set xs. f x = Some y}"
  by (induction xs) (auto simp: List.map_filter_simps split: option.splits)

lemma valid_index_Some: "valid_index len i = Some n \<longleftrightarrow> num_to_index i = Some n \<and> n < len"
  by (auto simp: valid_index_def split: option.splits)

lemma sorted_map_filter_index:
  assumes "len \<le> 10"
  shows "sorted (map string_key ys) \<Longrightarrow> sorted (List.map_filter (valid_index len) ys)"
proof (induction ys)
  case Nil
  show ?case by (simp add: List.map_filter_simps)
next
  case (Cons y ys)
  then have IH: "sorted (List.map_filter (valid_index len) ys)" by simp
  show ?case
  proof (cases "valid_index len y")
    case None
    with IH show ?thesis by (simp add: List.map_filter_simps)
  next
    case (Some n)
    then have yn: "num_to_index y = Some n" "n < 10"
      using assms by (auto simp: valid_index_Some)
    have "n \<le> m" if "m \<in> set (List.map_filter (valid_index len) ys)" for m
    proof -
      from that obtain z where z: "z \<in> set ys" "valid_index len z = Some m"
        by (auto simp: set_map_filter_eq)
      then have zm: "num_to_index z = Some m" "m < 10"
        using assms by (auto simp: valid_index_Some)
      from Cons.prems z(1) have "string_key y \<le> string_key z" by simp
      then show ?thesis
        by (auto simp: string_key_index[OF yn] string_key_index[OF zm])
    qed
    with IH Some show ?thesis by (simp add: List.map_filter_simps)
  qed
qed

lemma header_cells:
  "filter (\<lambda>c. c \<noteq> JUndefined) (map (\<lambda>index. array_get (map JStr dh) index) ys)
     = map (\<lambda>n. JStr (dh ! n)) (List.map_filter (valid_index (length dh)) ys)"
  by (induction ys)
     (auto simp: List.map_filter_simps array_get_def valid_index_def split: option.splits)

lemma column_indices_sorted: "sorted (column_indices env cfg)"
proof -
  have len: "length (defaultHeader env cfg) \<le> 10" by (simp add: length_defaultHeader)
  have "sorted (map string_key (sortedColumns env cfg))"
    by (simp add: sortedColumns_def sort_default_sort_key)
  from sorted_map_filter_index[OF len this]
  show ?thesis by (simp add: column_indices_def)
qed

text \<open>Whatever was selected, the defined cells of the header are the titles at the
  projected positions, which ascend.\<close>

lemma header_defined_cells:
  "filter (\<lambda>c. c \<noteq> JUndefined) (header env cfg)
     = map (\<lambda>n. JStr (defaultHeader env cfg ! n)) (column_indices env cfg)"
  using header_cells[of "defaultHeader env cfg" "sortedColumns env cfg"]
  by (simp add: header_def column_indices_def)

lemma all_positions_map:
  assumes "\<forall>y\<in>set ys. \<exists>n. num_to_index y = Some n \<and> n < len"
  shows "map num_to_index ys = map Some (List.map_filter (valid_index len) ys)"
  using assms
  by (induction ys) (auto simp: List.map_filter_simps valid_index_def)

lemma all_positions_project:
  assumes "\<forall>y\<in>set ys. \<exists>n. num_to_index y = Some n \<and> n < length zs"
  shows "map (\<lambda>index. array_get zs index) ys
           = map (\<lambda>n. zs ! n) (List.map_filter (valid_index (length zs)) ys)"
  using assms
  by (induction ys) (auto simp: List.map_filter_simps valid_index_def array_get_def)

lemma num_lt_dec:
  "num_lt (Dec m1 e1) (Dec m2 e2) \<longleftrightarrow> dec_value (Dec m1 e1) < dec_value (Dec m2 e2)"
proof -
  have "fst (aligned m1 e1 m2 e2) < snd (aligned m1 e1 m2 e2)
      \<longleftrightarrow> \<not> fst (aligned m2 e2 m1 e1) \<le> snd (aligned m2 e2 m1 e1)"
    by (auto simp: aligned_def min.commute)
  then show ?thesis by (simp add: aligned_le_iff not_le)
qed

lemma dec_value_index:
  assumes "num_to_index i = Some n"
  shows "\<exists>m e. i = Dec m e \<and> dec_value i = of_nat n"
proof (cases i)
  case (Dec m e)
  with assms have m0: "0 \<le> m" by (auto simp: num_to_index_def split: if_splits)
  show ?thesis
  proof (cases "0 \<le> e")
    case True
    with Dec assms m0 have n: "n = nat (m * 10 ^ nat e)"
      by (auto simp: num_to_index_def split: if_splits)
    have "(10::rat) powi e = 10 ^ nat e" using True by (simp add: power_int_def)
    then have "dec_value i = of_int (m * 10 ^ nat e)" using Dec by (simp add: dec_value_def)
    also have "\<dots> = of_nat n" using n m0 by simp
    finally show ?thesis using Dec by simp
  next
    case False
    define j where "j = nat (- e)"
    from False have e: "e = - int j" by (simp add: j_def)
    from Dec assms m0 False have md: "m mod 10 ^ j = 0" and n: "n = nat (m div 10 ^ j)"
      by (auto simp: num_to_index_def j_def split: if_splits)
    define q where "q = m div 10 ^ j"
    from md have mq: "m = q * 10 ^ j" by (simp add: q_def mod_eq_0_iff_dvd)
    have q0: "0 \<le> q" using m0 by (simp add: q_def pos_imp_zdiv_nonneg_iff)
    have "(10::rat) powi e = inverse (10 ^ j)" by (simp add: e power_int_minus)
    then have "dec_value i = of_int (q * 10 ^ j) * inverse (10 ^ j)"
      using Dec by (simp only: dec_value_def jsnum.case mq[symmetric])
    also have "\<dots> = of_int q" by simp
    also have "\<dots> = of_nat n" using n q0 by (simp add: q_def)
    finally show ?thesis using Dec by simp
  qed
qed (use assms in \<open>auto simp: num_to_index_def\<close>)

lemma index_order:
  assumes "num_to_index a = Some n" "num_to_index b = Some m" "n \<le> m"
  shows "\<not> num_lt b a"
proof -
  from dec_value_index[OF assms(1)] obtain ma ea where a: "a = Dec ma ea" "dec_value a = of_nat n"
    by blast
  from dec_value_index[OF assms(2)] obtain mb eb where b: "b = Dec mb eb" "dec_value b = of_nat m"
    by blast
  have "\<not> dec_value b < dec_value a" using a(2) b(2) assms(3) by simp
  then show ?thesis using a(1) b(1) by (simp add: num_lt_dec del: num_lt.simps)
qed

lemma positions_ascending:
  assumes "map num_to_index ys = map Some ns" and "sorted ns"
  shows "sorted_wrt (\<lambda>a b. \<not> num_lt b a) ys"
proof -
  have len: "length ys = length ns" using assms(1) by (metis length_map)
  have nth: "num_to_index (ys ! i) = Some (ns ! i)" if "i < length ys" for i
    using assms(1) that len by (metis nth_map)
  show ?thesis
    unfolding sorted_wrt_iff_nth_less
  proof (intro allI impI)
    fix i j assume ij: "i < j" "j < length ys"
    then have "ns ! i \<le> ns ! j" using assms(2) len by (simp add: sorted_iff_nth_mono)
    with nth[of i] nth[of j] ij show "\<not> num_lt (ys ! j) (ys ! i)"
      by (intro index_order) auto
  qed
qed

text \<open>
  Claim C7. When the entries the filter keeps are column indices, that is positions of
  the default header, the selection is the list of these positions in ascending numeric
  order, whatever the order of the request: it is a permutation of the kept entries,
  the header holds the titles at these positions and every row the cells at these
  positions, in that order.
\<close>

theorem projection_ascending:
  assumes "\<forall>index\<in>set (columns env cfg).
             \<exists>n. num_to_index index = Some n \<and> n < length (defaultHeader env cfg)"
  shows "\<exists>ns. sorted ns \<and>
           map num_to_index (sortedColumns env cfg) = map Some ns \<and>
           sorted_wrt (\<lambda>a b. \<not> num_lt b a) (sortedColumns env cfg) \<and>
           mset (sortedColumns env cfg) = mset (columns env cfg) \<and>
           header env cfg = map (\<lambda>n. JStr (defaultHeader env cfg ! n)) ns \<and>
           (\<forall>r shown. defaultValues env cfg r = Inr shown \<longrightarrow>
              values_row env cfg r = Inr (map (\<lambda>n. shown ! n) ns))"
proof -
  let ?len = "length (defaultHeader env cfg)"
  let ?ns = "column_indices env cfg"
  have perm: "mset (sortedColumns env cfg) = mset (columns env cfg)"
    by (simp add: sortedColumns_def sort_default_sort_key)
  then have "set (sortedColumns env cfg) = set (columns env cfg)" by (rule mset_eq_setD)
  with assms have all: "\<forall>y\<in>set (sortedColumns env cfg).
      \<exists>n. num_to_index y = Some n \<and> n < ?len" by simp
  have idx: "map num_to_index (sortedColumns env cfg) = map Some ?ns"
    using all_positions_map[OF all] by (simp add: column_indices_def)
  have srt: "sorted ?ns" by (rule column_indices_sorted)
  have asc: "sorted_wrt (\<lambda>a b. \<not> num_lt b a) (sortedColumns env cfg)"
    by (rule positions_ascending[OF idx srt])
  have hd: "header env cfg = map (\<lambda>n. JStr (defaultHeader env cfg ! n)) ?ns"
  proof -
    have "\<forall>n\<in>set ?ns. n < ?len"
      by (auto simp: column_indices_def set_map_filter_eq valid_index_Some)
    then have "map (\<lambda>n. map JStr (defaultHeader env cfg) ! n) ?ns
        = map (\<lambda>n. JStr (defaultHeader env cfg ! n)) ?ns" by simp
    with all_positions_project[of "sortedColumns env cfg" "map JStr (defaultHeader env cfg)"] all
    show ?thesis by (simp add: header_def column_indices_def)
  qed
  have row: "values_row env cfg r = Inr (map (\<lambda>n. shown ! n) ?ns)"
    if "defaultValues env cfg r = Inr shown" for r shown
  proof -
    from length_defaultValues[OF that] have l: "length shown = ?len" .
    with all_positions_project[of "sortedColumns env cfg" shown] all that
    show ?thesis by (simp add: values_row_def column_indices_def)
  qed
  from srt idx asc perm hd row show ?thesis by blast
qed

text \<open>\<open>--specific 2,0\<close> selects \<open>[0, 2]\<close>: the header is Rank, Price and a row is its
  rank and its price.\<close>

theorem projection_ascending_witness:
  "\<exists>ns. sorted ns \<and>
     map num_to_index (sortedColumns plain_env (default_config\<lparr>column := list_arg ''2,0''\<rparr>))
       = map Some ns \<and>
     header plain_env (default_config\<lparr>column := list_arg ''2,0''\<rparr>)
       = map (\<lambda>n. JStr (defaultHeader plain_env (default_config\<lparr>column := list_arg ''2,0''\<rparr>) ! n)) ns \<and>
     header plain_env (default_config\<lparr>column := list_arg ''2,0''\<rparr>)
       = [JStr ''Rank'', JStr ''Price USD''] \<and>
     sortedColumns plain_env (default_config\<lparr>column := list_arg ''2,0''\<rparr>) = [Dec 0 0, Dec 2 0] \<and>
     values_row plain_env (default_config\<lparr>column := list_arg ''2,0''\<rparr>)
       [''rank'' \<mapsto> JNum (Dec 1 0), ''symbol'' \<mapsto> JStr ''BTC'', ''price_usd'' \<mapsto> JNum (Dec 65 2)]
       = Inr [JNum (Dec 1 0), JNum (Dec 65 2)]"
proof -
  let ?cfg = "default_config\<lparr>column := list_arg ''2,0''\<rparr>"
  have h: "list_all (\<lambda>index. case num_to_index index of None \<Rightarrow> False
                      | Some n \<Rightarrow> n < length (defaultHeader plain_env ?cfg)) (columns plain_env ?cfg)"
    by code_simp
  then have hyp: "\<forall>index\<in>set (columns plain_env ?cfg).
             \<exists>n. num_to_index index = Some n \<and> n < length (defaultHeader plain_env ?cfg)"
    by (auto simp: list_all_iff split: option.splits)
  have e1: "header plain_env ?cfg = [JStr ''Rank'', JStr ''Price USD'']" by code_simp
  have e2: "sortedColumns plain_env ?cfg = [Dec 0 0, Dec 2 0]" by code_simp
  have e3: "values_row plain_env ?cfg
       [''rank'' \<mapsto> JNum (Dec 1 0), ''symbol'' \<mapsto> JStr ''BTC'', ''price_usd'' \<mapsto> JNum (Dec 65 2)]
       = Inr [JNum (Dec 1 0), JNum (Dec 65 2)]" by code_simp
  from projection_ascending[OF hyp] e1 e2 e3 show ?thesis by blast
qed

end
